theory Spec2Isabelle
  imports Main
begin

section \<open>Signaller (package signals)\<close>

text \<open>
  The signaller binds a peer connection, a media engine and a negotiator to the
  room-level relay.  Its collaborators are interfaces; the model records every call the
  signaller makes on them, in order, in the field \<open>calls\<close>, and takes the result of
  each fallible call from an environment that may look at the calls made so far.
\<close>

subsection \<open>Types of the WebRTC library used by the signaller\<close>

type_synonym lib_error = string
type_synonym ICECandidateInit = string

datatype SDPType =
  SDPTypeUnknown | SDPTypeOffer | SDPTypePranswer | SDPTypeAnswer | SDPTypeRollback

datatype SessionDescription = SessionDescription (sdType: SDPType) (sdp: string)

datatype RTPCodecType = RTPCodecTypeUnknown | RTPCodecTypeAudio | RTPCodecTypeVideo

datatype RTPTransceiverDirection =
    RTPTransceiverDirectionSendrecv
  | RTPTransceiverDirectionSendonly
  | RTPTransceiverDirectionRecvonly
  | RTPTransceiverDirectionInactive

datatype ICEConnectionState =
    ICEConnectionStateNew
  | ICEConnectionStateChecking
  | ICEConnectionStateConnected
  | ICEConnectionStateCompleted
  | ICEConnectionStateDisconnected
  | ICEConnectionStateFailed
  | ICEConnectionStateClosed

subsection \<open>Signalling envelopes\<close>

text \<open>
  Modelled from the spec: the payload types of package signals (\<open>Payload\<close>,
  \<open>Candidate\<close>, \<open>Renegotiate\<close>, \<open>TransceiverRequest\<close> and the constructors
  \<open>NewPayloadSDP\<close>, \<open>NewPayloadRenegotiate\<close>, \<open>NewTransceiverRequest\<close>) are declared
  in a file that is not part of the sources at hand.  The envelope is
  \<open>{userID, signal}\<close> where the signal is a candidate, a renegotiation request, a
  transceiver request or a session description.  \<open>OtherSignal\<close> stands for a value of
  any other dynamic type stored in the \<open>Signal\<close> field.
\<close>

datatype Signal =
    Candidate ICECandidateInit
  | Renegotiate
  | TransceiverRequest RTPCodecType RTPTransceiverDirection
  | SDP SessionDescription
  | OtherSignal string

datatype Payload = Payload (UserID: string) (signal: Signal)

definition NewPayloadSDP :: "string \<Rightarrow> SessionDescription \<Rightarrow> Payload" where
  "NewPayloadSDP userID sd = Payload userID (SDP sd)"

definition NewPayloadRenegotiate :: "string \<Rightarrow> Payload" where
  "NewPayloadRenegotiate userID = Payload userID Renegotiate"

definition NewTransceiverRequest ::
  "string \<Rightarrow> RTPCodecType \<Rightarrow> RTPTransceiverDirection \<Rightarrow> Payload" where
  "NewTransceiverRequest userID kind direction =
     Payload userID (TransceiverRequest kind direction)"

subsection \<open>Calls on the collaborators\<close>

datatype call =
    PC_OnICEConnectionStateChange
  | PC_AddICECandidate ICECandidateInit
  | PC_AddTransceiverFromKind RTPCodecType RTPTransceiverDirection
  | PC_SetRemoteDescription SessionDescription
  | PC_SetLocalDescription SessionDescription
  | PC_CreateAnswer
  | PC_Close
  | ME_RegisterDefaultCodecs
  | ME_PopulateFromSDP SessionDescription
  | NewNegotiator bool string
  | Negotiator_Negotiate
  | Negotiator_AddTransceiverFromKind RTPCodecType RTPTransceiverDirection
  | OnSignal Payload
  | CloseChannel

fun is_pc_call :: "call \<Rightarrow> bool" where
  "is_pc_call PC_OnICEConnectionStateChange = True"
| "is_pc_call (PC_AddICECandidate c) = True"
| "is_pc_call (PC_AddTransceiverFromKind k d) = True"
| "is_pc_call (PC_SetRemoteDescription sd) = True"
| "is_pc_call (PC_SetLocalDescription sd) = True"
| "is_pc_call PC_CreateAnswer = True"
| "is_pc_call PC_Close = True"
| "is_pc_call c = False"

text \<open>
  The results of the fallible calls on the peer connection and on the media engine.
  Each result may depend on the calls made before it.
\<close>

record Env =
  AddICECandidate_result :: "call list \<Rightarrow> ICECandidateInit \<Rightarrow> lib_error option"
  AddTransceiverFromKind_result ::
    "call list \<Rightarrow> RTPCodecType \<Rightarrow> RTPTransceiverDirection \<Rightarrow> lib_error option"
  SetRemoteDescription_result :: "call list \<Rightarrow> SessionDescription \<Rightarrow> lib_error option"
  SetLocalDescription_result :: "call list \<Rightarrow> SessionDescription \<Rightarrow> lib_error option"
  CreateAnswer_result :: "call list \<Rightarrow> lib_error + SessionDescription"
  PopulateFromSDP_result :: "call list \<Rightarrow> SessionDescription \<Rightarrow> lib_error option"
  Close_result :: "call list \<Rightarrow> lib_error option"

subsection \<open>The signaller\<close>

datatype chan = ChanOpen | ChanClosed

record Signaller =
  initiator :: bool
  localPeerID :: string
  remotePeerID :: string
  closeChannel :: chan
  closeOnce :: bool
  calls :: "call list"

datatype signal_error =
    ErrConstructingSignal string
  | ErrUnexpectedSignal string Signal
  | ErrUnexpectedSdpType string SDPType
  | ErrPopulatingCodecs string lib_error
  | ErrSettingRemoteDescription string lib_error
  | ErrCreatingAnswer string lib_error
  | ErrSettingLocalDescription string lib_error
  | ErrPreAddingVideo string lib_error
  | ErrPreAddingAudio string lib_error
  | ErrPeerConnection lib_error

datatype 'a outcome = Returned 'a | Panicked

definition record_call :: "call \<Rightarrow> Signaller \<Rightarrow> Signaller" where
  "record_call c s = s\<lparr>calls := calls s @ [c]\<rparr>"

text \<open>
  \<open>initialize\<close>: the initiator registers the default codecs; a receive-only video
  transceiver and then a receive-only audio transceiver are pre-added, each failure
  ending the function with an error; the initiator then starts the negotiation.
\<close>

definition initialize :: "Env \<Rightarrow> Signaller \<Rightarrow> signal_error option \<times> Signaller" where
  "initialize env s =
     (let s1 = (if initiator s then record_call ME_RegisterDefaultCodecs s else s);
          err1 = AddTransceiverFromKind_result env (calls s1)
                   RTPCodecTypeVideo RTPTransceiverDirectionRecvonly;
          s2 = record_call
                 (PC_AddTransceiverFromKind RTPCodecTypeVideo RTPTransceiverDirectionRecvonly) s1
      in case err1 of
           Some e \<Rightarrow> (Some (ErrPreAddingVideo (remotePeerID s) e), s2)
         | None \<Rightarrow>
            (let err2 = AddTransceiverFromKind_result env (calls s2)
                          RTPCodecTypeAudio RTPTransceiverDirectionRecvonly;
                 s3 = record_call
                        (PC_AddTransceiverFromKind RTPCodecTypeAudio
                           RTPTransceiverDirectionRecvonly) s2
             in case err2 of
                  Some e \<Rightarrow> (Some (ErrPreAddingAudio (remotePeerID s) e), s3)
                | None \<Rightarrow>
                    (None, if initiator s then record_call Negotiator_Negotiate s3 else s3)))"

text \<open>
  \<open>NewSignaller\<close>: builds the struct with a fresh close channel, creates the
  negotiator, subscribes to the ICE connection state and initializes.  The Go function
  returns the signaller together with the error of \<open>initialize\<close>.
\<close>

definition NewSignaller ::
  "Env \<Rightarrow> bool \<Rightarrow> string \<Rightarrow> string \<Rightarrow> signal_error option \<times> Signaller" where
  "NewSignaller env initiator' localPeerID' remotePeerID' =
     (let s = \<lparr>initiator = initiator', localPeerID = localPeerID',
                remotePeerID = remotePeerID', closeChannel = ChanOpen,
                closeOnce = False, calls = []\<rparr>;
          s' = record_call (NewNegotiator initiator' remotePeerID') s;
          s'' = record_call PC_OnICEConnectionStateChange s'
      in initialize env s'')"

text \<open>
  \<open>Close\<close>: the body runs under \<open>sync.Once\<close>, so only while the latch \<open>closeOnce\<close>
  is unset: it closes the peer connection, whose error it returns, and closes the close
  channel.  Closing a channel that is closed already panics in Go.  A later call
  returns the zero value of the named result, nil.
\<close>

definition Close :: "Env \<Rightarrow> Signaller \<Rightarrow> lib_error option outcome \<times> Signaller" where
  "Close env s =
     (if closeOnce s then (Returned None, s)
      else
        (let err = Close_result env (calls s);
             s1 = (record_call PC_Close s)\<lparr>closeOnce := True\<rparr>
         in case closeChannel s1 of
              ChanClosed \<Rightarrow> (Panicked, s1)
            | ChanOpen \<Rightarrow>
                (Returned err, (record_call CloseChannel s1)\<lparr>closeChannel := ChanClosed\<rparr>)))"

definition handleICEConnectionStateChange ::
  "Env \<Rightarrow> Signaller \<Rightarrow> ICEConnectionState \<Rightarrow> unit outcome \<times> Signaller" where
  "handleICEConnectionStateChange env s connectionState =
     (if connectionState = ICEConnectionStateClosed \<or>
         connectionState = ICEConnectionStateDisconnected \<or>
         connectionState = ICEConnectionStateFailed
      then (case Close env s of
              (Returned err, s') \<Rightarrow> (Returned (), s')
            | (Panicked, s') \<Rightarrow> (Panicked, s'))
      else (Returned (), s))"

text \<open>\<open>Negotiate\<close> and \<open>handleTransceiverRequest\<close> hand over to the negotiator.\<close>

definition Negotiate :: "Signaller \<Rightarrow> Signaller" where
  "Negotiate s = record_call Negotiator_Negotiate s"

definition handleTransceiverRequest :: "Signaller \<Rightarrow> RTPCodecType \<Rightarrow> Signaller" where
  "handleTransceiverRequest s codecType =
     record_call
       (Negotiator_AddTransceiverFromKind codecType RTPTransceiverDirectionSendrecv) s"

definition handleRemoteOffer ::
  "Env \<Rightarrow> Signaller \<Rightarrow> SessionDescription \<Rightarrow> signal_error option \<times> Signaller" where
  "handleRemoteOffer env s sessionDescription =
     (let r1 = PopulateFromSDP_result env (calls s) sessionDescription;
          s1 = record_call (ME_PopulateFromSDP sessionDescription) s
      in case r1 of
           Some e \<Rightarrow> (Some (ErrPopulatingCodecs (remotePeerID s) e), s1)
         | None \<Rightarrow>
      (let r2 = SetRemoteDescription_result env (calls s1) sessionDescription;
           s2 = record_call (PC_SetRemoteDescription sessionDescription) s1
       in case r2 of
            Some e \<Rightarrow> (Some (ErrSettingRemoteDescription (remotePeerID s) e), s2)
          | None \<Rightarrow>
      (let r3 = CreateAnswer_result env (calls s2);
           s3 = record_call PC_CreateAnswer s2
       in case r3 of
            Inl e \<Rightarrow> (Some (ErrCreatingAnswer (remotePeerID s) e), s3)
          | Inr answer \<Rightarrow>
      (let r4 = SetLocalDescription_result env (calls s3) answer;
           s4 = record_call (PC_SetLocalDescription answer) s3
       in case r4 of
            Some e \<Rightarrow> (Some (ErrSettingLocalDescription (remotePeerID s) e), s4)
          | None \<Rightarrow>
              (None, record_call (OnSignal (NewPayloadSDP (localPeerID s) answer)) s4)))))"

definition handleRemoteAnswer ::
  "Env \<Rightarrow> Signaller \<Rightarrow> SessionDescription \<Rightarrow> signal_error option \<times> Signaller" where
  "handleRemoteAnswer env s sessionDescription =
     (let r = SetRemoteDescription_result env (calls s) sessionDescription;
          s1 = record_call (PC_SetRemoteDescription sessionDescription) s
      in case r of
           Some e \<Rightarrow> (Some (ErrSettingRemoteDescription (remotePeerID s) e), s1)
         | None \<Rightarrow> (None, s1))"

definition handleRemoteSDP ::
  "Env \<Rightarrow> Signaller \<Rightarrow> SessionDescription \<Rightarrow> signal_error option \<times> Signaller" where
  "handleRemoteSDP env s sessionDescription =
     (case sdType sessionDescription of
        SDPTypeOffer \<Rightarrow> handleRemoteOffer env s sessionDescription
      | SDPTypeAnswer \<Rightarrow> handleRemoteAnswer env s sessionDescription
      | _ \<Rightarrow> (Some (ErrUnexpectedSdpType (remotePeerID s) (sdType sessionDescription)), s))"

text \<open>
  \<open>Signal\<close>: decodes the inbound map and dispatches on the dynamic type of the signal.
  The decoder \<open>NewPayloadFromMap\<close> is not part of the sources at hand and is a
  parameter.
\<close>

definition Signal ::
  "('m \<Rightarrow> lib_error + Payload) \<Rightarrow> Env \<Rightarrow> Signaller \<Rightarrow> 'm \<Rightarrow> signal_error option \<times> Signaller"
  where
  "Signal NewPayloadFromMap env s payload =
     (case NewPayloadFromMap payload of
        Inl err \<Rightarrow> (Some (ErrConstructingSignal err), s)
      | Inr signalPayload \<Rightarrow>
          (case signal signalPayload of
             Candidate c \<Rightarrow>
               (map_option ErrPeerConnection (AddICECandidate_result env (calls s) c),
                record_call (PC_AddICECandidate c) s)
           | Renegotiate \<Rightarrow> (None, Negotiate s)
           | TransceiverRequest kind direction \<Rightarrow> (None, handleTransceiverRequest s kind)
           | SDP sd \<Rightarrow> handleRemoteSDP env s sd
           | OtherSignal t \<Rightarrow>
               (Some (ErrUnexpectedSignal (remotePeerID s) (OtherSignal t)), s)))"

text \<open>\<open>SendTransceiverRequest\<close>: only a responder sends the request upstream.\<close>

definition SendTransceiverRequest ::
  "Signaller \<Rightarrow> RTPCodecType \<Rightarrow> RTPTransceiverDirection \<Rightarrow> Signaller" where
  "SendTransceiverRequest s kind direction =
     (if \<not> initiator s
      then record_call (OnSignal (NewTransceiverRequest (localPeerID s) kind direction)) s
      else s)"

subsection \<open>Runs of a signaller\<close>

text \<open>
  The operations a signaller's owner and its peer connection invoke on it, and a run of
  a list of them.  A run stops at a panic; its first component says whether it did.
\<close>

datatype 'm op =
    OpClose
  | OpICEConnectionStateChange ICEConnectionState
  | OpSignal 'm
  | OpSendTransceiverRequest RTPCodecType RTPTransceiverDirection
  | OpNegotiate

fun closes :: "'m op \<Rightarrow> bool" where
  "closes OpClose = True"
| "closes (OpICEConnectionStateChange st) =
     (st = ICEConnectionStateClosed \<or> st = ICEConnectionStateDisconnected \<or>
      st = ICEConnectionStateFailed)"
| "closes other = False"

fun run_ops ::
  "('m \<Rightarrow> lib_error + Payload) \<Rightarrow> Env \<Rightarrow> 'm op list \<Rightarrow> Signaller \<Rightarrow> bool \<times> Signaller"
  where
  "run_ops d env [] s = (False, s)"
| "run_ops d env (OpClose # ops) s =
     (case Close env s of
        (Returned err, s') \<Rightarrow> run_ops d env ops s'
      | (Panicked, s') \<Rightarrow> (True, s'))"
| "run_ops d env (OpICEConnectionStateChange st # ops) s =
     (case handleICEConnectionStateChange env s st of
        (Returned u, s') \<Rightarrow> run_ops d env ops s'
      | (Panicked, s') \<Rightarrow> (True, s'))"
| "run_ops d env (OpSignal m # ops) s = run_ops d env ops (snd (Signal d env s m))"
| "run_ops d env (OpSendTransceiverRequest kind direction # ops) s =
     run_ops d env ops (SendTransceiverRequest s kind direction)"
| "run_ops d env (OpNegotiate # ops) s = run_ops d env ops (Negotiate s)"

definition count_call :: "call \<Rightarrow> Signaller \<Rightarrow> nat" where
  "count_call c s = length (filter ((=) c) (calls s))"

definition latch_inv :: "Signaller \<Rightarrow> bool" where
  "latch_inv s =
     ((closeChannel s = ChanClosed) = closeOnce s \<and>
      count_call PC_Close s = (if closeOnce s then 1 else 0) \<and>
      count_call CloseChannel s = (if closeOnce s then 1 else 0))"

text \<open>
  The variants \<open>Signal\<close> knows: a candidate, a renegotiation request, a transceiver
  request, and a session description that is an offer or an answer.
\<close>

fun known_variant :: "Signal \<Rightarrow> bool" where
  "known_variant (Candidate c) = True"
| "known_variant Renegotiate = True"
| "known_variant (TransceiverRequest kind direction) = True"
| "known_variant (SDP sd) = (sdType sd = SDPTypeOffer \<or> sdType sd = SDPTypeAnswer)"
| "known_variant (OtherSignal t) = False"

fun unexpected_signal :: "signal_error option \<Rightarrow> bool" where
  "unexpected_signal (Some (ErrUnexpectedSignal r sg)) = True"
| "unexpected_signal (Some (ErrUnexpectedSdpType r t)) = True"
| "unexpected_signal e = False"

subsection \<open>Sample collaborators\<close>

text \<open>A peer connection and media engine whose calls all succeed.\<close>

definition env_ok :: Env where
  "env_ok =
     \<lparr>AddICECandidate_result = (\<lambda>tr c. None),
      AddTransceiverFromKind_result = (\<lambda>tr k d. None),
      SetRemoteDescription_result = (\<lambda>tr sd. None),
      SetLocalDescription_result = (\<lambda>tr sd. None),
      CreateAnswer_result = (\<lambda>tr. Inr (SessionDescription SDPTypeAnswer ''v=0'')),
      PopulateFromSDP_result = (\<lambda>tr sd. None),
      Close_result = (\<lambda>tr. None)\<rparr>"

text \<open>A peer connection that refuses to add a video transceiver.\<close>

definition env_no_video :: Env where
  "env_no_video =
     env_ok\<lparr>AddTransceiverFromKind_result :=
              (\<lambda>tr k d. if k = RTPCodecTypeVideo then Some ''no video'' else None)\<rparr>"

definition responder :: Signaller where
  "responder =
     \<lparr>initiator = False, localPeerID = ''a'', remotePeerID = ''b'',
      closeChannel = ChanOpen, closeOnce = False, calls = []\<rparr>"

section \<open>Socket handler (package wshandler)\<close>

subsection \<open>Package path of the Go library\<close>

text \<open>
  The handler reads the client and the room off the URL path with \<open>path.Base\<close> and
  \<open>path.Dir\<close> of the Go standard library.  A Go string is a sequence of bytes, here a
  list of characters.

  \<open>Clean\<close> writes the cleaned path into a buffer \<open>out\<close> while it reads the path
  element by element; \<open>dotdot\<close> is the length of the part of the buffer that a
  \<open>..\<close> element must not remove.  For a \<open>..\<close> element that can backtrack, the
  write index first steps back by one and then further back, until the byte at the
  index is a slash or the index reaches \<open>dotdot\<close>.
\<close>

function backtrack :: "string \<Rightarrow> nat \<Rightarrow> nat \<Rightarrow> nat" where
  "backtrack out dotdot w =
     (if dotdot < w \<and> out ! w \<noteq> CHR ''/'' then backtrack out dotdot (w - 1) else w)"
  by pat_completeness auto
termination
  by (relation "measure (\<lambda>(out, dotdot, w). w)") auto

declare backtrack.simps [simp del]

text \<open>
  The loop of \<open>Clean\<close> over the unread part of the path: an empty element and a
  \<open>.\<close> element are skipped, a \<open>..\<close> element removes the last element written
  (or, in a path that is not rooted and has nothing left to remove, is written itself),
  and any other element is copied up to the next slash, after a separating slash where
  one is needed.
\<close>

function clean_loop :: "bool \<Rightarrow> string \<Rightarrow> nat \<Rightarrow> string \<Rightarrow> string" where
  "clean_loop rooted out dotdot [] = out"
| "clean_loop rooted out dotdot (c # cs) =
     (if c = CHR ''/'' then clean_loop rooted out dotdot cs
      else if c = CHR ''.'' \<and> (cs = [] \<or> hd cs = CHR ''/'') then
        clean_loop rooted out dotdot cs
      else if c = CHR ''.'' \<and> hd cs = CHR ''.'' \<and> (tl cs = [] \<or> hd (tl cs) = CHR ''/'') then
        (if dotdot < length out then
           clean_loop rooted (take (backtrack out dotdot (length out - 1)) out) dotdot (tl cs)
         else if \<not> rooted then
           (let out' = (if 0 < length out then out @ ''/'' else out) @ ''..''
            in clean_loop rooted out' (length out') (tl cs))
         else clean_loop rooted out dotdot (tl cs))
      else
        (let out' = (if rooted \<and> length out \<noteq> 1 \<or> \<not> rooted \<and> length out \<noteq> 0
                     then out @ ''/'' else out)
         in clean_loop rooted (out' @ c # takeWhile (\<lambda>x. x \<noteq> CHR ''/'') cs) dotdot
              (dropWhile (\<lambda>x. x \<noteq> CHR ''/'') cs)))"
  by pat_completeness auto
termination
  by (relation "measure (\<lambda>(rooted, out, dotdot, rest). length rest)")
     (simp_all add: less_Suc_eq_le length_dropWhile_le)

definition Clean :: "string \<Rightarrow> string" where
  "Clean path =
     (if path = [] then ''.''
      else
        (let rooted = (hd path = CHR ''/'');
             out = (if rooted then clean_loop True ''/'' 1 (tl path)
                    else clean_loop False [] 0 path)
         in if out = [] then ''.'' else out))"

text \<open>
  \<open>LastIndexByteString\<close> is the index of the last occurrence of a byte, or \<open>-1\<close>;
  \<open>Split\<close> cuts a path after its last slash; \<open>Base\<close> is the last element of a path,
  once trailing slashes are removed; \<open>Dir\<close> is the cleaned first half of \<open>Split\<close>.
\<close>

primrec LastIndexByteString :: "string \<Rightarrow> char \<Rightarrow> int" where
  "LastIndexByteString [] c = - 1"
| "LastIndexByteString (x # xs) c =
     (let i = LastIndexByteString xs c
      in if 0 \<le> i then i + 1 else if x = c then 0 else - 1)"

definition Split :: "string \<Rightarrow> string \<times> string" where
  "Split path =
     (let i = LastIndexByteString path CHR ''/''
      in (take (nat (i + 1)) path, drop (nat (i + 1)) path))"

definition Base :: "string \<Rightarrow> string" where
  "Base path =
     (if path = [] then ''.''
      else
        (let path1 = rev (dropWhile (\<lambda>x. x = CHR ''/'') (rev path));
             i = LastIndexByteString path1 CHR ''/'';
             path2 = (if 0 \<le> i then drop (nat (i + 1)) path1 else path1)
         in if path2 = [] then ''/'' else path2))"

definition Dir :: "string \<Rightarrow> string" where
  "Dir path = Clean (fst (Split path))"

text \<open>A path element: a string that is not empty and has no slash.\<close>

definition segment :: "string \<Rightarrow> bool" where
  "segment s = (s \<noteq> [] \<and> CHR ''/'' \<notin> set s)"

text \<open>
  What the loop of \<open>Clean\<close> keeps true of its buffer in a rooted path: the buffer
  starts with the slash, which no \<open>..\<close> element removes.
\<close>

definition clean_inv :: "bool \<Rightarrow> string \<Rightarrow> nat \<Rightarrow> bool" where
  "clean_inv rooted out dotdot =
     (rooted \<longrightarrow> 1 \<le> dotdot \<and> dotdot \<le> length out \<and> hd out = CHR ''/'')"

subsection \<open>The URL layout as the specification words it\<close>

text \<open>
  The segments of a URL path are its elements between slashes.  In the layout
  \<open>/ws/<room>/<clientID>\<close> the client is the last segment and the room the segment
  before it.  These two definitions follow the wording of the specification, not the
  code; the handler's own computation is \<open>Base\<close> and \<open>Base\<close> of \<open>Dir\<close>.
\<close>

function segments :: "string \<Rightarrow> string list" where
  "segments [] = []"
| "segments (c # cs) =
     (if c = CHR ''/'' then segments cs
      else (c # takeWhile (\<lambda>x. x \<noteq> CHR ''/'') cs) #
           segments (dropWhile (\<lambda>x. x \<noteq> CHR ''/'') cs))"
  by pat_completeness auto
termination
  by (relation "measure length") (simp_all add: less_Suc_eq_le length_dropWhile_le)

definition spec_clientID :: "string \<Rightarrow> string" where
  "spec_clientID urlPath = last (segments urlPath)"

definition spec_room :: "string \<Rightarrow> string" where
  "spec_room urlPath = last (butlast (segments urlPath))"

subsection \<open>Errors and close statuses\<close>

text \<open>
  A Go error is the cancellation error of package context, a close error of the
  websocket library with its status code and reason, some other error, or an error that
  wraps another one with a message.  \<open>errors.Is\<close> follows the chain of wrapped errors
  looking for the target; \<open>websocket.CloseStatus\<close> is the code of the first close error
  in the chain, and \<open>-1\<close> when there is none or the error is nil.
\<close>

datatype go_error =
    Canceled
  | CloseError int string
  | ErrorString string
  | Wrapped string go_error

fun errors_Is :: "go_error \<Rightarrow> go_error \<Rightarrow> bool" where
  "errors_Is (Wrapped msg e) target = (Wrapped msg e = target \<or> errors_Is e target)"
| "errors_Is e target = (e = target)"

fun errors_As_CloseError :: "go_error \<Rightarrow> (int \<times> string) option" where
  "errors_As_CloseError (CloseError code reason) = Some (code, reason)"
| "errors_As_CloseError (Wrapped msg e) = errors_As_CloseError e"
| "errors_As_CloseError e = None"

definition CloseStatus :: "go_error option \<Rightarrow> int" where
  "CloseStatus err =
     (case err of
        None \<Rightarrow> - 1
      | Some e \<Rightarrow> (case errors_As_CloseError e of Some (code, reason) \<Rightarrow> code | None \<Rightarrow> - 1))"

definition StatusNormalClosure :: int where "StatusNormalClosure = 1000"
definition StatusGoingAway :: int where "StatusGoingAway = 1001"
definition StatusInternalError :: int where "StatusInternalError = 1011"

subsection \<open>Events of the handler\<close>

text \<open>
  The arguments of the two callbacks, and everything the handler does to its
  collaborators (the websocket, the client, the room manager, the adapter, the two
  callbacks and the log), as the events of a trace.  The adapter \<open>'a\<close> and the
  messages \<open>'m\<close> are opaque.
\<close>

datatype ('a, 'm) RoomEvent = RoomEvent string string 'a 'm
datatype 'a CleanupEvent = CleanupEvent string string 'a

datatype ('a, 'm) event =
    Websocket_Accept
  | Log_AcceptError go_error
  | Log_Closing string string
  | Socket_Close int string
  | NewClientWithID string
  | Client_Close
  | Log_NewConnection string string
  | Rooms_Enter string
  | Log_RoomsExit string string
  | Rooms_Exit string
  | Adapter_Add 'a string
  | Log_AddError go_error
  | Cleanup "'a CleanupEvent"
  | Log_AdapterRemove string string
  | Adapter_Remove 'a string
  | Log_RemoveError go_error
  | Client_Subscribe
  | HandleMessage "('a, 'm) RoomEvent"
  | Log_SubscriptionError go_error

fun is_log :: "('a, 'm) event \<Rightarrow> bool" where
  "is_log (Log_AcceptError e) = True"
| "is_log (Log_Closing room clientID) = True"
| "is_log (Log_NewConnection room clientID) = True"
| "is_log (Log_RoomsExit room clientID) = True"
| "is_log (Log_AddError e) = True"
| "is_log (Log_AdapterRemove room clientID) = True"
| "is_log (Log_RemoveError e) = True"
| "is_log (Log_SubscriptionError e) = True"
| "is_log e = False"

text \<open>
  What the collaborators answer during one request: whether the upgrade is accepted,
  the adapter of each room, whether the adapter takes the client, the messages the
  subscription delivers and the error it ends with, and whether the adapter lets the
  client go.
\<close>

record ('a, 'm) World =
  Accept_result :: "go_error option"
  Enter_result :: "string \<Rightarrow> 'a"
  Add_result :: "go_error option"
  Subscribe_messages :: "'m list"
  Subscribe_result :: "go_error option"
  Remove_result :: "go_error option"

subsection \<open>The handler\<close>

text \<open>
  The functions the handler defers.  Go runs the deferred functions when the handler
  returns, the last deferred first; the list of deferred functions is kept with the
  last deferred at its head.  The arguments of a deferred call are evaluated when it is
  deferred, so the cleanup event is part of the deferred cleanup.
\<close>

datatype 'a deferred =
    DeferSocketClose
  | DeferClientClose
  | DeferRoomsExit
  | DeferCleanup "'a CleanupEvent"
  | DeferAdapterRemove

fun run_deferred ::
  "('a, 'm) World \<Rightarrow> string \<Rightarrow> string \<Rightarrow> 'a \<Rightarrow> 'a deferred \<Rightarrow> ('a, 'm) event list" where
  "run_deferred w room clientID adapter DeferSocketClose =
     [Log_Closing room clientID, Socket_Close StatusInternalError []]"
| "run_deferred w room clientID adapter DeferClientClose = [Client_Close]"
| "run_deferred w room clientID adapter DeferRoomsExit =
     [Log_RoomsExit room clientID, Rooms_Exit room]"
| "run_deferred w room clientID adapter (DeferCleanup ev) = [Cleanup ev]"
| "run_deferred w room clientID adapter DeferAdapterRemove =
     [Log_AdapterRemove room clientID, Adapter_Remove adapter clientID] @
     (case Remove_result w of Some err \<Rightarrow> [Log_RemoveError err] | None \<Rightarrow> [])"

definition return_running ::
  "('a, 'm) World \<Rightarrow> string \<Rightarrow> string \<Rightarrow> 'a \<Rightarrow> 'a deferred list \<Rightarrow> ('a, 'm) event list" where
  "return_running w room clientID adapter deferred =
     concat (map (run_deferred w room clientID adapter) deferred)"

text \<open>
  \<open>HandleRoomWithCleanup\<close>, as the trace of one request.  The flag \<open>cleanup\<close> says
  whether the cleanup callback is given (not nil).
\<close>

definition HandleRoomWithCleanup ::
  "('a, 'm) World \<Rightarrow> string \<Rightarrow> bool \<Rightarrow> ('a, 'm) event list" where
  "HandleRoomWithCleanup w urlPath cleanup =
     (case Accept_result w of
        Some err \<Rightarrow> [Websocket_Accept, Log_AcceptError err]
      | None \<Rightarrow>
          (let clientID = Base urlPath;
               room = Base (Dir urlPath);
               d1 = [DeferSocketClose];
               t1 = [Websocket_Accept, NewClientWithID clientID];
               d2 = DeferClientClose # d1;
               t2 = t1 @ [Log_NewConnection room clientID];
               adapter = Enter_result w room;
               t3 = t2 @ [Rooms_Enter room];
               d3 = DeferRoomsExit # d2;
               t4 = t3 @ [Adapter_Add adapter clientID]
           in case Add_result w of
                Some err \<Rightarrow>
                  t4 @ [Log_AddError err] @ return_running w room clientID adapter d3
              | None \<Rightarrow>
                  (let d4 = (if cleanup then DeferCleanup (CleanupEvent clientID room adapter) # d3
                             else d3);
                       d5 = DeferAdapterRemove # d4;
                       t5 = t4 @ [Client_Subscribe] @
                            map (\<lambda>message. HandleMessage (RoomEvent clientID room adapter message))
                              (Subscribe_messages w);
                       err = Subscribe_result w
                   in if (case err of None \<Rightarrow> False | Some e \<Rightarrow> errors_Is e Canceled) then
                        t5 @ return_running w room clientID adapter d5
                      else if CloseStatus err = StatusNormalClosure \<or>
                              CloseStatus err = StatusGoingAway then
                        t5 @ return_running w room clientID adapter d5
                      else
                        (case err of
                           Some e \<Rightarrow>
                             t5 @ [Log_SubscriptionError e] @
                             return_running w room clientID adapter d5
                         | None \<Rightarrow> t5 @ return_running w room clientID adapter d5))))"

definition HandleRoom :: "('a, 'm) World \<Rightarrow> string \<Rightarrow> ('a, 'm) event list" where
  "HandleRoom w urlPath = HandleRoomWithCleanup w urlPath False"

text \<open>The trace without its log lines.\<close>

definition effects :: "('a, 'm) event list \<Rightarrow> ('a, 'm) event list" where
  "effects tr = filter (\<lambda>e. \<not> is_log e) tr"

text \<open>
  A sample request: the upgrade is accepted, the adapter takes the client, one message
  arrives, and the peer goes away.
\<close>

definition world1 :: "(nat, string) World" where
  "world1 = \<lparr>Accept_result = None, Enter_result = (\<lambda>room. 7), Add_result = None,
     Subscribe_messages = [''hello''], Subscribe_result = Some (CloseError 1001 []),
     Remove_result = None\<rparr>"

text \<open>\<open>precedes a b tr\<close>: \<open>b\<close> occurs in the trace after the first \<open>a\<close>.\<close>

definition precedes :: "'e \<Rightarrow> 'e \<Rightarrow> 'e list \<Rightarrow> bool" where
  "precedes a b tr =
     (case dropWhile (\<lambda>e. e \<noteq> a) tr of [] \<Rightarrow> False | e # rest \<Rightarrow> b \<in> set rest)"

section \<open>Messages (package wsmessage)\<close>

subsection \<open>JSON text\<close>

text \<open>
  Modelled from the spec: the serializer of package wsmessage and the JSON library it
  rests on are not part of the sources at hand.  The specification fixes the encoding
  on the wire as UTF-8 JSON, one message per frame.  The codec below is JSON as the
  standard defines it.  A string is the sequence of its bytes; the encoder writes a
  value without insignificant whitespace and escapes the quote, the backslash and the
  control characters of a string; the decoder accepts whitespace between tokens and
  every escape of the standard except surrogate halves.
\<close>

definition is_ws :: "char \<Rightarrow> bool" where
  "is_ws c = (c = CHR '' '' \<or> c = CHR 0x09 \<or> c = CHR 0x0A \<or> c = CHR 0x0D)"

definition skip_ws :: "string \<Rightarrow> string" where
  "skip_ws s = dropWhile is_ws s"

definition char_code :: "char \<Rightarrow> nat" where
  "char_code c = of_char c"

definition is_digit :: "char \<Rightarrow> bool" where
  "is_digit c = (char_code CHR ''0'' \<le> char_code c \<and> char_code c \<le> char_code CHR ''9'')"

definition hex_digit :: "nat \<Rightarrow> char" where
  "hex_digit n = ''0123456789abcdef'' ! n"

definition hex_val :: "char \<Rightarrow> nat option" where
  "hex_val c =
     (if char_code CHR ''0'' \<le> char_code c \<and> char_code c \<le> char_code CHR ''9''
        then Some (char_code c - char_code CHR ''0'')
      else if char_code CHR ''a'' \<le> char_code c \<and> char_code c \<le> char_code CHR ''f''
        then Some (char_code c - char_code CHR ''a'' + 10)
      else if char_code CHR ''A'' \<le> char_code c \<and> char_code c \<le> char_code CHR ''F''
        then Some (char_code c - char_code CHR ''A'' + 10)
      else None)"

definition quote :: char where "quote = CHR 0x22"
definition backslash :: char where "backslash = CHR 0x5C"

text \<open>Strings: the encoder of one character and of a string, and the decoder.\<close>

definition enc_char :: "char \<Rightarrow> string" where
  "enc_char c =
     (if c = quote then [backslash, quote]
      else if c = backslash then [backslash, backslash]
      else if char_code c < 0x20 then
        [backslash, CHR ''u'', CHR ''0'', CHR ''0'',
         hex_digit (char_code c div 16), hex_digit (char_code c mod 16)]
      else [c])"

definition enc_string :: "string \<Rightarrow> string" where
  "enc_string s = quote # concat (map enc_char s) @ [quote]"

definition unescape :: "char \<Rightarrow> char option" where
  "unescape e =
     (if e = quote then Some quote
      else if e = backslash then Some backslash
      else if e = CHR ''/'' then Some CHR ''/''
      else if e = CHR ''b'' then Some (CHR 0x08)
      else if e = CHR ''f'' then Some (CHR 0x0C)
      else if e = CHR ''n'' then Some (CHR 0x0A)
      else if e = CHR ''r'' then Some (CHR 0x0D)
      else if e = CHR ''t'' then Some (CHR 0x09)
      else None)"

definition hex4 :: "char \<Rightarrow> char \<Rightarrow> char \<Rightarrow> char \<Rightarrow> nat option" where
  "hex4 a b c d =
     (case (hex_val a, hex_val b, hex_val c, hex_val d) of
        (Some x, Some y, Some z, Some w) \<Rightarrow> Some (((x * 16 + y) * 16 + z) * 16 + w)
      | _ \<Rightarrow> None)"

definition utf8 :: "nat \<Rightarrow> string option" where
  "utf8 n =
     (if n < 0x80 then Some [char_of n]
      else if n < 0x800 then Some [char_of (0xC0 + n div 64), char_of (0x80 + n mod 64)]
      else if 0xD800 \<le> n \<and> n < 0xE000 then None
      else Some [char_of (0xE0 + n div 4096), char_of (0x80 + n div 64 mod 64),
                 char_of (0x80 + n mod 64)])"

text \<open>
  \<open>parse_chars\<close> reads the characters of a string after its opening quote, up to the
  closing quote, and returns them with the text that follows.
\<close>

fun parse_chars :: "string \<Rightarrow> (string \<times> string) option" where
  "parse_chars [] = None"
| "parse_chars (c # cs) =
     (if c = quote then Some ([], cs)
      else if c = backslash then
        (case cs of
           [] \<Rightarrow> None
         | e # cs1 \<Rightarrow>
             if e = CHR ''u'' then
               (case cs1 of
                  h1 # h2 # h3 # h4 # cs2 \<Rightarrow>
                    (case hex4 h1 h2 h3 h4 of
                       None \<Rightarrow> None
                     | Some n \<Rightarrow>
                         (case utf8 n of
                            None \<Rightarrow> None
                          | Some bytes \<Rightarrow>
                              map_option (\<lambda>(s, rest). (bytes @ s, rest)) (parse_chars cs2)))
                | _ \<Rightarrow> None)
             else
               (case unescape e of
                  None \<Rightarrow> None
                | Some x \<Rightarrow> map_option (\<lambda>(s, rest). (x # s, rest)) (parse_chars cs1)))
      else if char_code c < 0x20 then None
      else map_option (\<lambda>(s, rest). (c # s, rest)) (parse_chars cs))"

text \<open>
  Numbers are kept as the literal they are written as: the sign, the digits of the
  integer part, the digits of the fraction (none when there is no fraction) and the
  exponent with its sign.  A literal is valid when the integer part has digits and no
  leading zero, and the fraction and exponent consist of digits.
\<close>

datatype number =
  Number (negative: bool) (int_digits: string) (frac_digits: string)
    (exponent: "(bool \<times> string) option")

definition digits :: "string \<Rightarrow> bool" where
  "digits s = list_all is_digit s"

definition valid_number :: "number \<Rightarrow> bool" where
  "valid_number n =
     (int_digits n \<noteq> [] \<and> digits (int_digits n) \<and>
      (length (int_digits n) = 1 \<or> hd (int_digits n) \<noteq> CHR ''0'') \<and>
      digits (frac_digits n) \<and>
      (case exponent n of None \<Rightarrow> True | Some (neg, ds) \<Rightarrow> ds \<noteq> [] \<and> digits ds))"

definition enc_number :: "number \<Rightarrow> string" where
  "enc_number n =
     (if negative n then ''-'' else []) @ int_digits n @
     (if frac_digits n = [] then [] else CHR ''.'' # frac_digits n) @
     (case exponent n of
        None \<Rightarrow> []
      | Some (neg, ds) \<Rightarrow> CHR ''e'' # (if neg then ''-'' else []) @ ds)"

definition parse_frac :: "string \<Rightarrow> (string \<times> string) option" where
  "parse_frac s =
     (case s of
        [] \<Rightarrow> Some ([], s)
      | c # cs \<Rightarrow>
          if c = CHR ''.'' then
            (let fs = takeWhile is_digit cs
             in if fs = [] then None else Some (fs, dropWhile is_digit cs))
          else Some ([], s))"

definition parse_exp :: "string \<Rightarrow> ((bool \<times> string) option \<times> string) option" where
  "parse_exp s =
     (case s of
        [] \<Rightarrow> Some (None, s)
      | c # cs \<Rightarrow>
          if c = CHR ''e'' \<or> c = CHR ''E'' then
            (let neg = (cs \<noteq> [] \<and> hd cs = CHR ''-'');
                 cs1 = (if cs \<noteq> [] \<and> (hd cs = CHR ''-'' \<or> hd cs = CHR ''+'') then tl cs else cs);
                 ds = takeWhile is_digit cs1
             in if ds = [] then None else Some (Some (neg, ds), dropWhile is_digit cs1))
          else Some (None, s))"

definition parse_number :: "string \<Rightarrow> (number \<times> string) option" where
  "parse_number s =
     (let neg = (s \<noteq> [] \<and> hd s = CHR ''-'');
          s1 = (if neg then tl s else s);
          ds = takeWhile is_digit s1
      in if ds = [] \<or> (hd ds = CHR ''0'' \<and> length ds \<noteq> 1) then None
         else
           (case parse_frac (dropWhile is_digit s1) of
              None \<Rightarrow> None
            | Some (fs, s3) \<Rightarrow>
                (case parse_exp s3 of
                   None \<Rightarrow> None
                 | Some (ex, s4) \<Rightarrow> Some (Number neg ds fs ex, s4))))"

text \<open>What may follow a value: nothing, a comma, or a closing bracket or brace.\<close>

definition delimited :: "string \<Rightarrow> bool" where
  "delimited rest =
     (rest = [] \<or> hd rest = CHR '','' \<or> hd rest = CHR '']'' \<or> hd rest = CHR ''}'')"

subsection \<open>JSON values\<close>

text \<open>
  Modelled from the spec: the payload of a message is a JSON value.  An object keeps
  its members in the order they are written.
\<close>

datatype json =
    JNull
  | JBool bool
  | JNumber number
  | JString string
  | JArray "json list"
  | JObject "(string \<times> json) list"

fun join :: "string list \<Rightarrow> string" where
  "join [] = []"
| "join [x] = x"
| "join (x # y # ys) = x @ CHR '','' # join (y # ys)"

fun enc_value :: "json \<Rightarrow> string" where
  "enc_value JNull = ''null''"
| "enc_value (JBool b) = (if b then ''true'' else ''false'')"
| "enc_value (JNumber n) = enc_number n"
| "enc_value (JString s) = enc_string s"
| "enc_value (JArray vs) = CHR ''['' # join (map enc_value vs) @ '']''"
| "enc_value (JObject ms) =
     CHR ''{'' # join (map (\<lambda>(k, v). enc_string k @ CHR '':'' # enc_value v) ms) @ ''}''"

text \<open>A JSON-representable value: each of its numbers is a valid literal.\<close>

fun valid_json :: "json \<Rightarrow> bool" where
  "valid_json (JNumber n) = valid_number n"
| "valid_json (JArray vs) = list_all valid_json vs"
| "valid_json (JObject ms) = list_all (\<lambda>(k, v). valid_json v) ms"
| "valid_json v = True"

text \<open>
  The decoder descends into arrays and objects under a bound on the depth of its
  recursion.  \<open>weight\<close> is the bound a value needs; the parser of a whole text takes
  the length of the text, which is never less.
\<close>

fun weight :: "json \<Rightarrow> nat" where
  "weight (JArray vs) = Suc (sum_list (map (\<lambda>v. Suc (weight v)) vs))"
| "weight (JObject ms) = Suc (sum_list (map (\<lambda>(k, v). Suc (weight v)) ms))"
| "weight v = 1"

fun parse_value :: "nat \<Rightarrow> string \<Rightarrow> (json \<times> string) option"
  and parse_elements :: "nat \<Rightarrow> string \<Rightarrow> (json list \<times> string) option"
  and parse_members :: "nat \<Rightarrow> string \<Rightarrow> ((string \<times> json) list \<times> string) option"
where
  "parse_value 0 s = None"
| "parse_value (Suc n) s =
     (case skip_ws s of
        [] \<Rightarrow> None
      | c # cs \<Rightarrow>
          if c = CHR ''n'' then
            (if take 3 cs = ''ull'' then Some (JNull, drop 3 cs) else None)
          else if c = CHR ''t'' then
            (if take 3 cs = ''rue'' then Some (JBool True, drop 3 cs) else None)
          else if c = CHR ''f'' then
            (if take 4 cs = ''alse'' then Some (JBool False, drop 4 cs) else None)
          else if c = quote then
            map_option (\<lambda>(str, rest). (JString str, rest)) (parse_chars cs)
          else if c = CHR ''['' then
            (case skip_ws cs of
               [] \<Rightarrow> None
             | d # ds \<Rightarrow>
                 if d = CHR '']'' then Some (JArray [], ds)
                 else map_option (\<lambda>(vs, rest). (JArray vs, rest)) (parse_elements n cs))
          else if c = CHR ''{'' then
            (case skip_ws cs of
               [] \<Rightarrow> None
             | d # ds \<Rightarrow>
                 if d = CHR ''}'' then Some (JObject [], ds)
                 else map_option (\<lambda>(ms, rest). (JObject ms, rest)) (parse_members n cs))
          else if c = CHR ''-'' \<or> is_digit c then
            map_option (\<lambda>(num, rest). (JNumber num, rest)) (parse_number (c # cs))
          else None)"
| "parse_elements 0 s = None"
| "parse_elements (Suc n) s =
     (case parse_value n s of
        None \<Rightarrow> None
      | Some (v, rest) \<Rightarrow>
          (case skip_ws rest of
             [] \<Rightarrow> None
           | c # cs \<Rightarrow>
               if c = CHR '','' then
                 map_option (\<lambda>(vs, rest'). (v # vs, rest')) (parse_elements n cs)
               else if c = CHR '']'' then Some ([v], cs)
               else None))"
| "parse_members 0 s = None"
| "parse_members (Suc n) s =
     (case skip_ws s of
        [] \<Rightarrow> None
      | q # cs \<Rightarrow>
          if q \<noteq> quote then None
          else
            (case parse_chars cs of
               None \<Rightarrow> None
             | Some (k, rest) \<Rightarrow>
                 (case skip_ws rest of
                    [] \<Rightarrow> None
                  | c # cs1 \<Rightarrow>
                      if c \<noteq> CHR '':'' then None
                      else
                        (case parse_value n cs1 of
                           None \<Rightarrow> None
                         | Some (v, rest1) \<Rightarrow>
                             (case skip_ws rest1 of
                                [] \<Rightarrow> None
                              | d # cs2 \<Rightarrow>
                                  if d = CHR '','' then
                                    map_option (\<lambda>(ms, rest2). ((k, v) # ms, rest2))
                                      (parse_members n cs2)
                                  else if d = CHR ''}'' then Some ([(k, v)], cs2)
                                  else None)))))"

definition parse_json :: "string \<Rightarrow> json option" where
  "parse_json s =
     (case parse_value (length s) s of
        None \<Rightarrow> None
      | Some (v, rest) \<Rightarrow> if skip_ws rest = [] then Some v else None)"

subsection \<open>Messages and the serializer\<close>

text \<open>
  Modelled from the spec: the type \<open>Message\<close>, its constructors and the serializer of
  package wsmessage are not part of the sources at hand (only their tests are).  A
  message is \<open>{type, room, payload}\<close>; \<open>NewMessageRoomJoin\<close> carries the payload
  \<open>{clientID, metadata}\<close> and \<open>NewMessageRoomLeave\<close> the client identifier;
  \<open>Serialize\<close> writes the frame \<open>{"type": ..., "room": ..., "payload": ...}\<close> and
  \<open>Deserialize\<close> reads it back, failing with \<open>Malformed\<close> on a text that is not such a
  frame.
\<close>

datatype codec_error = Malformed

record Message =
  Type :: string
  Room :: string
  payload :: json

definition NewMessage :: "string \<Rightarrow> string \<Rightarrow> json \<Rightarrow> Message" where
  "NewMessage typ room p = \<lparr>Type = typ, Room = room, payload = p\<rparr>"

definition MessageTypeRoomJoin :: string where
  "MessageTypeRoomJoin = ''ws_room_join''"

definition MessageTypeRoomLeave :: string where
  "MessageTypeRoomLeave = ''ws_room_leave''"

definition NewMessageRoomJoin :: "string \<Rightarrow> string \<Rightarrow> string \<Rightarrow> Message" where
  "NewMessageRoomJoin room clientID metadata =
     NewMessage MessageTypeRoomJoin room
       (JObject [(''clientID'', JString clientID), (''metadata'', JString metadata)])"

definition NewMessageRoomLeave :: "string \<Rightarrow> string \<Rightarrow> Message" where
  "NewMessageRoomLeave room clientID =
     NewMessage MessageTypeRoomLeave room (JString clientID)"

definition Serialize :: "Message \<Rightarrow> string" where
  "Serialize m =
     enc_value (JObject [(''type'', JString (Type m)), (''room'', JString (Room m)),
                         (''payload'', payload m)])"

definition Deserialize :: "string \<Rightarrow> codec_error + Message" where
  "Deserialize bytes =
     (case parse_json bytes of
        Some (JObject ms) \<Rightarrow>
          (case (map_of ms ''type'', map_of ms ''room'', map_of ms ''payload'') of
             (Some (JString typ), Some (JString room), Some p) \<Rightarrow>
               Inr \<lparr>Type = typ, Room = room, payload = p\<rparr>
           | _ \<Rightarrow> Inl Malformed)
      | _ \<Rightarrow> Inl Malformed)"

section \<open>Properties of the signaller\<close>

subsection \<open>The close latch\<close>

lemma Close_closed: "closeOnce s \<Longrightarrow> Close env s = (Returned None, s)"
  by (simp add: Close_def)

lemma Close_open:
  "\<not> closeOnce s \<Longrightarrow> closeChannel s = ChanOpen \<Longrightarrow>
   Close env s =
     (Returned (Close_result env (calls s)),
      s\<lparr>closeChannel := ChanClosed, closeOnce := True,
        calls := calls s @ [PC_Close, CloseChannel]\<rparr>)"
  by (simp add: Close_def record_call_def Let_def)

lemma Close_inv:
  assumes "latch_inv s"
  shows "\<exists>err s'. Close env s = (Returned err, s') \<and> latch_inv s' \<and> closeOnce s'"
proof (cases "closeOnce s")
  case True
  with assms show ?thesis by (simp add: Close_closed)
next
  case False
  with assms have "closeChannel s = ChanOpen"
    by (cases "closeChannel s") (auto simp: latch_inv_def)
  with False assms show ?thesis
    by (simp add: Close_open latch_inv_def count_call_def)
qed

lemma handleICEConnectionStateChange_inv:
  assumes "latch_inv s"
  shows "\<exists>s'. handleICEConnectionStateChange env s st = (Returned (), s') \<and> latch_inv s' \<and>
           closeOnce s' = (closeOnce s \<or> closes (OpICEConnectionStateChange st))"
proof (cases "closes (OpICEConnectionStateChange st)")
  case True
  from Close_inv [OF assms, of env] obtain err s' where
    "Close env s = (Returned err, s')" "latch_inv s'" "closeOnce s'" by blast
  with True show ?thesis by (auto simp: handleICEConnectionStateChange_def)
next
  case False
  with assms show ?thesis by (auto simp: handleICEConnectionStateChange_def)
qed

lemma Signal_frame:
  "closeOnce (snd (Signal d env s m)) = closeOnce s \<and>
   closeChannel (snd (Signal d env s m)) = closeChannel s \<and>
   count_call PC_Close (snd (Signal d env s m)) = count_call PC_Close s \<and>
   count_call CloseChannel (snd (Signal d env s m)) = count_call CloseChannel s"
  by (auto simp: Signal_def handleRemoteSDP_def handleRemoteOffer_def handleRemoteAnswer_def
        Negotiate_def handleTransceiverRequest_def record_call_def count_call_def Let_def
      split: sum.splits option.splits Signal.splits SDPType.splits)

lemma Signal_inv: "latch_inv s \<Longrightarrow> latch_inv (snd (Signal d env s m))"
  by (simp add: latch_inv_def Signal_frame)

lemma SendTransceiverRequest_inv:
  "latch_inv s \<Longrightarrow>
   latch_inv (SendTransceiverRequest s k dir) \<and>
   closeOnce (SendTransceiverRequest s k dir) = closeOnce s"
  by (auto simp: latch_inv_def SendTransceiverRequest_def record_call_def count_call_def
        NewTransceiverRequest_def)

lemma Negotiate_inv:
  "latch_inv s \<Longrightarrow> latch_inv (Negotiate s) \<and> closeOnce (Negotiate s) = closeOnce s"
  by (simp add: latch_inv_def Negotiate_def record_call_def count_call_def)

lemma run_ops_inv:
  "latch_inv s \<Longrightarrow>
   \<not> fst (run_ops d env ops s) \<and> latch_inv (snd (run_ops d env ops s)) \<and>
   closeOnce (snd (run_ops d env ops s)) = (closeOnce s \<or> list_ex closes ops)"
proof (induction ops arbitrary: s)
  case Nil
  then show ?case by simp
next
  case (Cons a ops)
  show ?case
  proof (cases a)
    case OpClose
    from Close_inv [OF Cons.prems, of env] obtain err s' where
      c: "Close env s = (Returned err, s')" "latch_inv s'" "closeOnce s'" by blast
    with Cons.IH [of s'] OpClose show ?thesis by simp
  next
    case (OpICEConnectionStateChange st)
    from handleICEConnectionStateChange_inv [OF Cons.prems, of env st] obtain s' where
      c: "handleICEConnectionStateChange env s st = (Returned (), s')" "latch_inv s'"
         "closeOnce s' = (closeOnce s \<or> closes (OpICEConnectionStateChange st))" by blast
    with Cons.IH [of s'] OpICEConnectionStateChange show ?thesis by auto
  next
    case (OpSignal m)
    with Cons.IH [of "snd (Signal d env s m)"] Signal_inv [OF Cons.prems, of d env m]
      Signal_frame [of d env s m]
    show ?thesis by simp
  next
    case (OpSendTransceiverRequest k dir)
    with Cons.IH [of "SendTransceiverRequest s k dir"]
      SendTransceiverRequest_inv [OF Cons.prems, of k dir]
    show ?thesis by simp
  next
    case OpNegotiate
    with Cons.IH [of "Negotiate s"] Negotiate_inv [OF Cons.prems]
    show ?thesis by simp
  qed
qed

lemma NewSignaller_inv:
  "latch_inv (snd (NewSignaller env i l r)) \<and> \<not> closeOnce (snd (NewSignaller env i l r))"
  by (auto simp: NewSignaller_def initialize_def record_call_def Let_def latch_inv_def
        count_call_def split: option.splits)

text \<open>
  Claim C3.  Take a signaller fresh from \<open>NewSignaller\<close> and run any list of operations
  on it.  No operation panics (the close channel is never closed twice).  At the end
  the peer connection's \<open>Close\<close> has been called once and the close channel closed once
  if some operation of the list was a \<open>Close\<close> or an ICE state change to closed,
  disconnected or failed, and neither has happened otherwise.  One more \<open>Close\<close>
  followed by any number of further ones leaves the state of the single \<open>Close\<close>, and
  a \<open>Close\<close> after a \<open>Close\<close> returns nil and changes nothing.
\<close>

theorem C3_Close_idempotent:
  "(let s0 = snd (NewSignaller env i l r);
        s = snd (run_ops d env ops s0)
    in \<not> fst (run_ops d env ops s0) \<and>
       count_call PC_Close s = (if list_ex closes ops then 1 else 0) \<and>
       count_call CloseChannel s = (if list_ex closes ops then 1 else 0) \<and>
       closeOnce s = list_ex closes ops \<and>
       Close env (snd (Close env s)) = (Returned None, snd (Close env s)) \<and>
       run_ops d env (OpClose # replicate n OpClose) s = (False, snd (Close env s)))"
proof -
  define s0 where "s0 = snd (NewSignaller env i l r)"
  define s where "s = snd (run_ops d env ops s0)"
  have i0: "latch_inv s0" "\<not> closeOnce s0"
    using NewSignaller_inv [of env i l r] by (simp_all add: s0_def)
  from run_ops_inv [OF i0(1), of d env ops] i0(2)
  have r: "\<not> fst (run_ops d env ops s0)" "latch_inv s" "closeOnce s = list_ex closes ops"
    by (simp_all add: s_def)
  from Close_inv [OF r(2), of env] obtain err s' where
    c: "Close env s = (Returned err, s')" "latch_inv s'" "closeOnce s'" by blast
  have rep: "run_ops d env (replicate n OpClose) s' = (False, s')"
    using c(3) by (induction n) (simp_all add: Close_closed)
  from r c rep Close_closed [OF c(3), of env] show ?thesis
    unfolding s0_def [symmetric] Let_def s_def [symmetric]
    by (auto simp: latch_inv_def)
qed

theorem C3_Close_idempotent_witness:
  "count_call PC_Close
     (snd (run_ops Inr env_ok
        [OpICEConnectionStateChange ICEConnectionStateFailed, OpClose,
         OpSignal (Payload ''b'' Renegotiate), OpClose]
        (snd (NewSignaller env_ok False ''a'' ''b'')))) = 1 \<and>
   count_call CloseChannel
     (snd (run_ops Inr env_ok
        [OpICEConnectionStateChange ICEConnectionStateFailed, OpClose,
         OpSignal (Payload ''b'' Renegotiate), OpClose]
        (snd (NewSignaller env_ok False ''a'' ''b'')))) = 1"
  using C3_Close_idempotent [of env_ok False "''a''" "''b''" Inr
      "[OpICEConnectionStateChange ICEConnectionStateFailed, OpClose,
        OpSignal (Payload ''b'' Renegotiate), OpClose]" 0]
  by (simp add: Let_def)

subsection \<open>Inbound signals\<close>

text \<open>
  Claim C4.  When the decoded signal of an inbound payload is not a known variant,
  \<open>Signal\<close> returns an unexpected-signal error (for a session description that is
  neither offer nor answer, the unexpected-type error) and calls nothing: the signaller
  is unchanged.  When the payload does not decode at all, the decoder's error is
  returned and nothing is called either.  For a renegotiation request and for a
  transceiver request \<open>Signal\<close> returns nil, having called the negotiator and nothing
  on the peer connection.
\<close>

theorem C4_Signal_unexpected:
  "(d m = Inr p \<and> \<not> known_variant (signal p) \<longrightarrow>
      unexpected_signal (fst (Signal d env s m)) \<and> snd (Signal d env s m) = s) \<and>
   (d m = Inl err \<longrightarrow> Signal d env s m = (Some (ErrConstructingSignal err), s)) \<and>
   (d m = Inr p \<and> (signal p = Renegotiate \<or> signal p = TransceiverRequest kind direction) \<longrightarrow>
      fst (Signal d env s m) = None \<and>
      filter is_pc_call (calls (snd (Signal d env s m))) = filter is_pc_call (calls s))"
  by (cases "signal p"; cases "sdType (case signal p of SDP sd \<Rightarrow> sd)")
     (auto simp: Signal_def handleRemoteSDP_def Negotiate_def handleTransceiverRequest_def
        record_call_def)

theorem C4_Signal_unexpected_witness:
  "fst (Signal Inr env_ok responder (Payload ''b'' (OtherSignal ''x''))) =
     Some (ErrUnexpectedSignal ''b'' (OtherSignal ''x'')) \<and>
   Signal Inr env_ok responder
     (Payload ''b'' (SDP (SessionDescription SDPTypePranswer ''v=0''))) =
     (Some (ErrUnexpectedSdpType ''b'' SDPTypePranswer), responder) \<and>
   fst (Signal Inr env_ok responder (Payload ''b'' Renegotiate)) = None"
  using
    C4_Signal_unexpected [of Inr "Payload ''b'' (OtherSignal ''x'')"
      "Payload ''b'' (OtherSignal ''x'')" env_ok responder]
    C4_Signal_unexpected [of Inr "Payload ''b'' (SDP (SessionDescription SDPTypePranswer ''v=0''))"
      "Payload ''b'' (SDP (SessionDescription SDPTypePranswer ''v=0''))" env_ok responder]
    C4_Signal_unexpected [of Inr "Payload ''b'' Renegotiate" "Payload ''b'' Renegotiate"
      env_ok responder]
  by (simp add: Signal_def handleRemoteSDP_def responder_def)

text \<open>
  Claim C5.  For a session description of type offer received through \<open>Signal\<close>, the
  calls made are, in this order: \<open>PopulateFromSDP(offer)\<close> on the media engine,
  \<open>SetRemoteDescription(offer)\<close>, \<open>CreateAnswer\<close>, \<open>SetLocalDescription(answer)\<close> with
  the answer just created, and \<open>onSignal\<close> with the answer addressed from the local
  peer.  The first call that fails ends the sequence: its error is returned and no later
  call, nor the emission, is made.  Nothing but the call log changes.
\<close>

theorem C5_handleRemoteOffer:
  assumes "d m = Inr p" and "signal p = SDP offer" and "sdType offer = SDPTypeOffer"
  shows "snd (Signal d env s m) = s\<lparr>calls := calls (snd (Signal d env s m))\<rparr> \<and>
   (case PopulateFromSDP_result env (calls s) offer of
      Some e \<Rightarrow>
        fst (Signal d env s m) = Some (ErrPopulatingCodecs (remotePeerID s) e) \<and>
        calls (snd (Signal d env s m)) = calls s @ [ME_PopulateFromSDP offer]
    | None \<Rightarrow>
   (case SetRemoteDescription_result env (calls s @ [ME_PopulateFromSDP offer]) offer of
      Some e \<Rightarrow>
        fst (Signal d env s m) = Some (ErrSettingRemoteDescription (remotePeerID s) e) \<and>
        calls (snd (Signal d env s m)) =
          calls s @ [ME_PopulateFromSDP offer, PC_SetRemoteDescription offer]
    | None \<Rightarrow>
   (case CreateAnswer_result env
           (calls s @ [ME_PopulateFromSDP offer, PC_SetRemoteDescription offer]) of
      Inl e \<Rightarrow>
        fst (Signal d env s m) = Some (ErrCreatingAnswer (remotePeerID s) e) \<and>
        calls (snd (Signal d env s m)) =
          calls s @ [ME_PopulateFromSDP offer, PC_SetRemoteDescription offer, PC_CreateAnswer]
    | Inr answer \<Rightarrow>
   (case SetLocalDescription_result env
           (calls s @ [ME_PopulateFromSDP offer, PC_SetRemoteDescription offer,
                       PC_CreateAnswer]) answer of
      Some e \<Rightarrow>
        fst (Signal d env s m) = Some (ErrSettingLocalDescription (remotePeerID s) e) \<and>
        calls (snd (Signal d env s m)) =
          calls s @ [ME_PopulateFromSDP offer, PC_SetRemoteDescription offer, PC_CreateAnswer,
                     PC_SetLocalDescription answer]
    | None \<Rightarrow>
        fst (Signal d env s m) = None \<and>
        calls (snd (Signal d env s m)) =
          calls s @ [ME_PopulateFromSDP offer, PC_SetRemoteDescription offer, PC_CreateAnswer,
                     PC_SetLocalDescription answer,
                     OnSignal (Payload (localPeerID s) (SDP answer))]))))"
  using assms
  by (simp add: Signal_def handleRemoteSDP_def handleRemoteOffer_def record_call_def Let_def
        NewPayloadSDP_def split: option.splits sum.splits)

theorem C5_handleRemoteOffer_witness:
  "Signal Inr env_ok responder (Payload ''b'' (SDP (SessionDescription SDPTypeOffer ''o''))) =
     (None,
      responder\<lparr>calls :=
        [ME_PopulateFromSDP (SessionDescription SDPTypeOffer ''o''),
         PC_SetRemoteDescription (SessionDescription SDPTypeOffer ''o''),
         PC_CreateAnswer,
         PC_SetLocalDescription (SessionDescription SDPTypeAnswer ''v=0''),
         OnSignal (Payload ''a'' (SDP (SessionDescription SDPTypeAnswer ''v=0'')))]\<rparr>)"
  (is "?run = (None, responder\<lparr>calls := ?cs\<rparr>)")
proof -
  note inst = C5_handleRemoteOffer [of Inr
      "Payload ''b'' (SDP (SessionDescription SDPTypeOffer ''o''))"
      "Payload ''b'' (SDP (SessionDescription SDPTypeOffer ''o''))"
      "SessionDescription SDPTypeOffer ''o''" env_ok responder, simplified]
  from inst have frame: "snd ?run = responder\<lparr>calls := calls (snd ?run)\<rparr>"
    by (rule conjunct1)
  from inst have "fst ?run = None \<and> calls (snd ?run) = ?cs"
    by (simp add: env_ok_def responder_def)
  then have res: "fst ?run = None" and cs: "calls (snd ?run) = ?cs"
    by blast+
  from frame have "snd ?run = responder\<lparr>calls := ?cs\<rparr>"
    unfolding cs .
  with res show ?thesis
    by (simp add: prod_eq_iff)
qed

subsection \<open>Construction\<close>

text \<open>
  Claim C6, as the code has it.  \<open>NewSignaller\<close> creates the negotiator and subscribes
  to the ICE connection state; it registers the default codecs exactly when it is the
  initiator; it always asks for a receive-only video transceiver; it asks for a
  receive-only audio transceiver exactly when the video one was added; and it calls
  \<open>Negotiate\<close>, last, exactly when it is the initiator and both transceivers were
  added.  A transceiver that cannot be added ends the construction with an error.
\<close>

theorem C6_NewSignaller:
  "NewSignaller env i l r =
     (let s = \<lparr>initiator = i, localPeerID = l, remotePeerID = r, closeChannel = ChanOpen,
                closeOnce = False, calls = []\<rparr>;
          pre = [NewNegotiator i r, PC_OnICEConnectionStateChange] @
                (if i then [ME_RegisterDefaultCodecs] else []);
          video = PC_AddTransceiverFromKind RTPCodecTypeVideo RTPTransceiverDirectionRecvonly;
          audio = PC_AddTransceiverFromKind RTPCodecTypeAudio RTPTransceiverDirectionRecvonly
      in case AddTransceiverFromKind_result env pre
                RTPCodecTypeVideo RTPTransceiverDirectionRecvonly of
           Some e \<Rightarrow> (Some (ErrPreAddingVideo r e), s\<lparr>calls := pre @ [video]\<rparr>)
         | None \<Rightarrow>
             (case AddTransceiverFromKind_result env (pre @ [video])
                     RTPCodecTypeAudio RTPTransceiverDirectionRecvonly of
                Some e \<Rightarrow> (Some (ErrPreAddingAudio r e), s\<lparr>calls := pre @ [video, audio]\<rparr>)
              | None \<Rightarrow>
                  (None, s\<lparr>calls := pre @ [video, audio] @
                                    (if i then [Negotiator_Negotiate] else [])\<rparr>)))"
  by (simp add: NewSignaller_def initialize_def record_call_def Let_def split: option.splits)

text \<open>
  The claim as it was written fails for an initiator whose peer connection refuses the
  video transceiver: no audio transceiver is asked for and \<open>Negotiate\<close> is not called.
\<close>

theorem C6_NewSignaller_counterexample:
  "PC_AddTransceiverFromKind RTPCodecTypeAudio RTPTransceiverDirectionRecvonly
     \<notin> set (calls (snd (NewSignaller env_no_video True ''a'' ''b''))) \<and>
   Negotiator_Negotiate \<notin> set (calls (snd (NewSignaller env_no_video True ''a'' ''b'')))"
  by (simp add: NewSignaller_def initialize_def record_call_def Let_def env_no_video_def
        env_ok_def)

subsection \<open>Outbound requests\<close>

text \<open>
  Claim C9.  \<open>SendTransceiverRequest(kind, direction)\<close> of a responder emits exactly one
  payload through \<open>onSignal\<close>, the transceiver request of the local peer for that kind
  and direction, and makes no other call; of an initiator it changes nothing at all.
\<close>

theorem C9_SendTransceiverRequest:
  "(\<not> initiator s \<longrightarrow>
      SendTransceiverRequest s kind direction =
        s\<lparr>calls := calls s @
            [OnSignal (Payload (localPeerID s) (TransceiverRequest kind direction))]\<rparr>) \<and>
   (initiator s \<longrightarrow> SendTransceiverRequest s kind direction = s)"
  by (simp add: SendTransceiverRequest_def record_call_def NewTransceiverRequest_def)

theorem C9_SendTransceiverRequest_witness:
  "calls (SendTransceiverRequest responder RTPCodecTypeVideo RTPTransceiverDirectionSendrecv) =
     [OnSignal (Payload ''a''
        (TransceiverRequest RTPCodecTypeVideo RTPTransceiverDirectionSendrecv))] \<and>
   SendTransceiverRequest (responder\<lparr>initiator := True\<rparr>)
       RTPCodecTypeVideo RTPTransceiverDirectionSendrecv =
     responder\<lparr>initiator := True\<rparr>"
  using
    C9_SendTransceiverRequest [of responder RTPCodecTypeVideo RTPTransceiverDirectionSendrecv]
    C9_SendTransceiverRequest [of "responder\<lparr>initiator := True\<rparr>"
      RTPCodecTypeVideo RTPTransceiverDirectionSendrecv]
  by (simp add: responder_def)

section \<open>Properties of the socket handler\<close>

subsection \<open>Paths\<close>

lemma LastIndexByteString_absent: "c \<notin> set ys \<Longrightarrow> LastIndexByteString ys c = - 1"
  by (induction ys) auto

lemma LastIndexByteString_last:
  "c \<notin> set ys \<Longrightarrow> LastIndexByteString (xs @ c # ys) c = int (length xs)"
  by (induction xs) (auto simp: LastIndexByteString_absent Let_def)

lemma Base_segment:
  assumes "segment seg" and "Y = [] \<or> last Y = CHR ''/''"
  shows "Base (Y @ seg) = seg"
proof -
  from assms(1) have ne: "seg \<noteq> []" and ns: "CHR ''/'' \<notin> set seg"
    by (simp_all add: segment_def)
  from ne ns have "last seg \<noteq> CHR ''/''"
    using last_in_set by metis
  with ne have strip: "rev (dropWhile (\<lambda>x. x = CHR ''/'') (rev (Y @ seg))) = Y @ seg"
    by (cases "rev seg") (auto simp: last_rev hd_rev)
  show ?thesis
  proof (cases "Y = []")
    case True
    with ne ns strip show ?thesis
      by (simp add: Base_def LastIndexByteString_absent)
  next
    case False
    with assms(2) obtain Y' where Y: "Y = Y' @ ''/''"
      by (metis append_butlast_last_id)
    have "nat (int (length Y') + 1) = Suc (length Y')" by simp
    with Y ne ns strip LastIndexByteString_last [of "CHR ''/''" seg Y'] show ?thesis
      by (simp add: Base_def Let_def)
  qed
qed

lemma backtrack_bounds:
  "dotdot \<le> w \<Longrightarrow> dotdot \<le> backtrack out dotdot w \<and> backtrack out dotdot w \<le> w"
proof (induction out dotdot w rule: backtrack.induct)
  case (1 out dotdot w)
  show ?case
  proof (cases "dotdot < w \<and> out ! w \<noteq> CHR ''/''")
    case True
    then have "dotdot \<le> w - 1" by auto
    from "1.IH" [OF True this]
    have ih: "dotdot \<le> backtrack out dotdot (w - 1) \<and> backtrack out dotdot (w - 1) \<le> w - 1" .
    from True have "backtrack out dotdot w = backtrack out dotdot (w - 1)"
      by (subst backtrack.simps) simp
    moreover from ih have "backtrack out dotdot (w - 1) \<le> w"
      by (metis diff_le_self le_trans)
    ultimately show ?thesis using ih by simp
  next
    case False
    then have "backtrack out dotdot w = w"
      by (subst backtrack.simps) auto
    with "1.prems" show ?thesis by simp
  qed
qed

lemma clean_loop_slash:
  "clean_loop rooted out dotdot (CHR ''/'' # cs) = clean_loop rooted out dotdot cs"
  by simp

lemma clean_loop_dot:
  assumes "cs = [] \<or> hd cs = CHR ''/''"
  shows "clean_loop rooted out dotdot (CHR ''.'' # cs) = clean_loop rooted out dotdot cs"
  using assms by auto

lemma clean_loop_dotdot:
  assumes "cs \<noteq> []" and "hd cs = CHR ''.''" and "tl cs = [] \<or> hd (tl cs) = CHR ''/''"
  shows "clean_loop rooted out dotdot (CHR ''.'' # cs) =
     (if dotdot < length out then
        clean_loop rooted (take (backtrack out dotdot (length out - 1)) out) dotdot (tl cs)
      else if \<not> rooted then
        clean_loop rooted ((if 0 < length out then out @ ''/'' else out) @ ''..'')
          (length ((if 0 < length out then out @ ''/'' else out) @ ''..'')) (tl cs)
      else clean_loop rooted out dotdot (tl cs))"
proof -
  from assms have "\<not> (cs = [] \<or> hd cs = CHR ''/'')"
    by (cases cs) auto
  with assms show ?thesis
    by (subst clean_loop.simps) (simp add: Let_def)
qed

lemma clean_loop_element:
  assumes "c \<noteq> CHR ''/''"
    and "\<not> (c = CHR ''.'' \<and> (cs = [] \<or> hd cs = CHR ''/''))"
    and "\<not> (c = CHR ''.'' \<and> hd cs = CHR ''.'' \<and> (tl cs = [] \<or> hd (tl cs) = CHR ''/''))"
  shows "clean_loop rooted out dotdot (c # cs) =
     clean_loop rooted
       ((if rooted \<and> length out \<noteq> 1 \<or> \<not> rooted \<and> length out \<noteq> 0
         then out @ ''/'' else out) @ c # takeWhile (\<lambda>x. x \<noteq> CHR ''/'') cs)
       dotdot (dropWhile (\<lambda>x. x \<noteq> CHR ''/'') cs)"
  apply (subst clean_loop.simps)
  apply (subst if_not_P, rule assms(1))
  apply (subst if_not_P, rule assms(2))
  apply (subst if_not_P, rule assms(3))
  apply (simp only: Let_def)
  done

lemma clean_loop_segment:
  assumes "segment room" "room \<noteq> ''.''" "room \<noteq> ''..''"
  shows "clean_loop rooted out dotdot (room @ ''/'') =
           (if rooted \<and> length out \<noteq> 1 \<or> \<not> rooted \<and> length out \<noteq> 0
            then out @ ''/'' else out) @ room"
proof -
  from assms(1) obtain c cs where room: "room = c # cs" and c: "c \<noteq> CHR ''/''"
    and cs: "CHR ''/'' \<notin> set cs"
    by (cases room) (auto simp: segment_def)
  have nodot: "\<not> (c = CHR ''.'' \<and> (cs @ ''/'' = [] \<or> hd (cs @ ''/'') = CHR ''/''))"
    using assms(2) cs room by (cases cs) auto
  have nodotdot: "\<not> (c = CHR ''.'' \<and> hd (cs @ ''/'') = CHR ''.'' \<and>
                    (tl (cs @ ''/'') = [] \<or> hd (tl (cs @ ''/'')) = CHR ''/''))"
  proof (cases cs)
    case Nil
    then show ?thesis by simp
  next
    case (Cons d ds)
    with assms(3) cs room show ?thesis by (cases ds) auto
  qed
  have tw: "takeWhile (\<lambda>x. x \<noteq> CHR ''/'') (cs @ ''/'') = cs"
    using cs by (induction cs) auto
  have dw: "dropWhile (\<lambda>x. x \<noteq> CHR ''/'') (cs @ ''/'') = ''/''"
    using cs by (induction cs) auto
  have "clean_loop rooted out dotdot (room @ ''/'') =
          clean_loop rooted
            ((if rooted \<and> length out \<noteq> 1 \<or> \<not> rooted \<and> length out \<noteq> 0
              then out @ ''/'' else out) @ c # cs) dotdot ''/''"
    unfolding room append_Cons
    by (subst clean_loop_element [OF c nodot nodotdot]) (simp only: tw dw)
  then show ?thesis
    by (simp only: clean_loop_slash clean_loop.simps(1) room)
qed

declare clean_loop.simps [simp del]

lemma clean_inv_last:
  assumes "clean_inv rooted out dotdot"
  shows "(if rooted \<and> length out \<noteq> 1 \<or> \<not> rooted \<and> length out \<noteq> 0
          then out @ ''/'' else out) = [] \<or>
         last (if rooted \<and> length out \<noteq> 1 \<or> \<not> rooted \<and> length out \<noteq> 0
               then out @ ''/'' else out) = CHR ''/''"
proof (cases "rooted \<and> length out = 1")
  case True
  with assms have "out = [CHR ''/'']"
    by (cases out) (auto simp: clean_inv_def)
  with True show ?thesis by simp
next
  case False
  then show ?thesis by auto
qed

lemma clean_inv_element:
  assumes "clean_inv rooted out dotdot"
  shows "clean_inv rooted
           ((if rooted \<and> length out \<noteq> 1 \<or> \<not> rooted \<and> length out \<noteq> 0
             then out @ ''/'' else out) @ c # cs) dotdot"
  using assms by (cases out) (auto simp: clean_inv_def)

lemma clean_inv_backtrack:
  assumes "clean_inv rooted out dotdot" and "dotdot < length out"
  shows "clean_inv rooted (take (backtrack out dotdot (length out - 1)) out) dotdot"
proof -
  from assms(2) have "dotdot \<le> length out - 1" by simp
  from backtrack_bounds [OF this, of out]
  have b: "dotdot \<le> backtrack out dotdot (length out - 1)"
          "backtrack out dotdot (length out - 1) \<le> length out - 1" by simp_all
  with assms show ?thesis
    by (cases out) (auto simp: clean_inv_def min_def take_Cons split: nat.splits)
qed

lemma dropWhile_before_slash:
  "dropWhile (\<lambda>x. x \<noteq> CHR ''/'') (cs @ CHR ''/'' # rest) =
     dropWhile (\<lambda>x. x \<noteq> CHR ''/'') cs @ CHR ''/'' # rest"
  by (induction cs) auto

lemma clean_loop_prefix:
  assumes room: "segment room" "room \<noteq> ''.''" "room \<noteq> ''..''"
  shows "clean_inv rooted out dotdot \<Longrightarrow>
         \<exists>Y. clean_loop rooted out dotdot (pre @ CHR ''/'' # room @ ''/'') = Y @ room \<and>
             (Y = [] \<or> last Y = CHR ''/'')"
proof (induction "length pre" arbitrary: pre out dotdot rule: less_induct)
  case less
  note inv = less.prems
  show ?case
  proof (cases pre)
    case Nil
    with clean_loop_segment [OF room, of rooted out dotdot] clean_inv_last [OF inv]
    show ?thesis by (simp add: clean_loop_slash)
  next
    case (Cons c cs)
    let ?rest = "cs @ CHR ''/'' # room @ ''/''"
    have rest: "pre @ CHR ''/'' # room @ ''/'' = c # ?rest"
      using Cons by simp
    consider (slash) "c = CHR ''/''"
      | (dot) "c = CHR ''.''" "hd ?rest = CHR ''/''"
      | (dotdot) "c = CHR ''.''" "hd ?rest = CHR ''.''"
                 "tl ?rest = [] \<or> hd (tl ?rest) = CHR ''/''"
      | (element) "c \<noteq> CHR ''/''"
          "\<not> (c = CHR ''.'' \<and> (?rest = [] \<or> hd ?rest = CHR ''/''))"
          "\<not> (c = CHR ''.'' \<and> hd ?rest = CHR ''.'' \<and>
              (tl ?rest = [] \<or> hd (tl ?rest) = CHR ''/''))"
      by auto
    then show ?thesis
    proof cases
      case slash
      with less.hyps [of cs, OF _ inv] Cons show ?thesis
        by (simp add: clean_loop_slash)
    next
      case dot
      with less.hyps [of cs, OF _ inv] Cons clean_loop_dot [of ?rest rooted out dotdot]
      show ?thesis by simp
    next
      case dotdot
      from dotdot(2) obtain ds where cs: "cs = CHR ''.'' # ds"
        by (cases cs) auto
      then have tl_rest: "tl ?rest = ds @ CHR ''/'' # room @ ''/''" by simp
      have lt: "length ds < length pre" using Cons cs by simp
      have step: "clean_loop rooted out dotdot (c # ?rest) =
         (if dotdot < length out then
            clean_loop rooted (take (backtrack out dotdot (length out - 1)) out) dotdot (tl ?rest)
          else if \<not> rooted then
            clean_loop rooted ((if 0 < length out then out @ ''/'' else out) @ ''..'')
              (length ((if 0 < length out then out @ ''/'' else out) @ ''..'')) (tl ?rest)
          else clean_loop rooted out dotdot (tl ?rest))"
        using dotdot clean_loop_dotdot [of ?rest rooted out dotdot] by simp
      show ?thesis
      proof (cases "dotdot < length out")
        case True
        from less.hyps [OF lt clean_inv_backtrack [OF inv True]] step True rest tl_rest
        show ?thesis by simp
      next
        case False
        show ?thesis
        proof (cases rooted)
          case True
          from less.hyps [OF lt inv] step \<open>\<not> dotdot < length out\<close> True rest tl_rest
          show ?thesis by simp
        next
          case nr: False
          then have "clean_inv rooted ((if 0 < length out then out @ ''/'' else out) @ ''..'')
              (length ((if 0 < length out then out @ ''/'' else out) @ ''..''))"
            by (simp add: clean_inv_def)
          from less.hyps [OF lt this] step \<open>\<not> dotdot < length out\<close> nr rest tl_rest
          show ?thesis by simp
        qed
      qed
    next
      case element
      have lt: "length (dropWhile (\<lambda>x. x \<noteq> CHR ''/'') cs) < length pre"
        using Cons length_dropWhile_le [of "\<lambda>x. x \<noteq> CHR ''/''" cs] by simp
      from less.hyps [OF lt clean_inv_element [OF inv]]
        clean_loop_element [OF element, of rooted out dotdot] rest
      show ?thesis
        by (simp add: dropWhile_before_slash)
    qed
  qed
qed

lemma segments_segment:
  assumes "segment s"
  shows "segments s = [s]"
proof -
  from assms obtain c cs where s: "s = c # cs" "c \<noteq> CHR ''/''" "CHR ''/'' \<notin> set cs"
    by (cases s) (auto simp: segment_def)
  from s(3) have tw: "takeWhile (\<lambda>x. x \<noteq> CHR ''/'') cs = cs"
    by (induction cs) auto
  from s(3) have dw: "dropWhile (\<lambda>x. x \<noteq> CHR ''/'') cs = []"
    by (induction cs) auto
  have "segments (c # cs) =
          (c # takeWhile (\<lambda>x. x \<noteq> CHR ''/'') cs) #
          segments (dropWhile (\<lambda>x. x \<noteq> CHR ''/'') cs)"
    using s(2) by simp
  also have "\<dots> = [c # cs]"
    by (simp only: tw dw segments.simps)
  finally show ?thesis by (simp only: s(1))
qed

lemma segments_append:
  "segments (pre @ CHR ''/'' # rest) = segments pre @ segments rest"
proof (induction pre rule: segments.induct)
  case 1
  then show ?case by simp
next
  case (2 c cs)
  have tw: "takeWhile (\<lambda>x. x \<noteq> CHR ''/'') (cs @ CHR ''/'' # rest) =
            takeWhile (\<lambda>x. x \<noteq> CHR ''/'') cs"
    by (induction cs) auto
  from 2 show ?case
    by (simp add: tw dropWhile_before_slash)
qed

lemma segments_layout:
  assumes "segment room" "segment client"
  shows "segments (pre @ CHR ''/'' # room @ CHR ''/'' # client) = segments pre @ [room, client]"
  using assms by (simp add: segments_append segments_segment)

lemma Split_layout:
  assumes "segment client"
  shows "Split (dir @ CHR ''/'' # client) = (dir @ ''/'', client)"
proof -
  from assms have "CHR ''/'' \<notin> set client" by (simp add: segment_def)
  from LastIndexByteString_last [OF this, of dir]
  have i: "LastIndexByteString (dir @ CHR ''/'' # client) CHR ''/'' = int (length dir)" .
  have "nat (int (length dir) + 1) = Suc (length dir)" by simp
  with i show ?thesis by (simp add: Split_def)
qed

lemma Clean_layout:
  assumes room: "segment room" "room \<noteq> ''.''" "room \<noteq> ''..''"
  shows "\<exists>Y. Clean (pre @ CHR ''/'' # room @ ''/'') = Y @ room \<and> (Y = [] \<or> last Y = CHR ''/'')"
proof -
  from room(1) have ne: "room \<noteq> []" by (simp add: segment_def)
  have "\<exists>Y. (if hd (pre @ CHR ''/'' # room @ ''/'') = CHR ''/''
               then clean_loop True ''/'' 1 (tl (pre @ CHR ''/'' # room @ ''/''))
               else clean_loop False [] 0 (pre @ CHR ''/'' # room @ ''/'')) = Y @ room \<and>
            (Y = [] \<or> last Y = CHR ''/'')"
  proof (cases pre)
    case Nil
    with clean_loop_segment [OF room, of True "''/''" 1] show ?thesis by simp
  next
    case (Cons c cs)
    show ?thesis
    proof (cases "c = CHR ''/''")
      case True
      have "clean_inv True ''/'' 1" by (simp add: clean_inv_def)
      from clean_loop_prefix [OF room this, of cs] Cons True show ?thesis by simp
    next
      case False
      have "clean_inv False [] 0" by (simp add: clean_inv_def)
      from clean_loop_prefix [OF room this, of pre] Cons False show ?thesis by simp
    qed
  qed
  then obtain Y where Y: "(if hd (pre @ CHR ''/'' # room @ ''/'') = CHR ''/''
               then clean_loop True ''/'' 1 (tl (pre @ CHR ''/'' # room @ ''/''))
               else clean_loop False [] 0 (pre @ CHR ''/'' # room @ ''/'')) = Y @ room"
     "Y = [] \<or> last Y = CHR ''/''" by blast
  with ne have "Clean (pre @ CHR ''/'' # room @ ''/'') = Y @ room"
    unfolding Clean_def Let_def by auto
  with Y(2) show ?thesis by blast
qed

lemma Base_Dir_layout:
  assumes room: "segment room" "room \<noteq> ''.''" "room \<noteq> ''..''" and client: "segment client"
  shows "Base (pre @ CHR ''/'' # room @ CHR ''/'' # client) = client"
    and "Base (Dir (pre @ CHR ''/'' # room @ CHR ''/'' # client)) = room"
proof -
  have "Base ((pre @ CHR ''/'' # room @ ''/'') @ client) = client"
    by (rule Base_segment [OF client]) simp
  then show "Base (pre @ CHR ''/'' # room @ CHR ''/'' # client) = client" by simp
  from Split_layout [OF client, of "pre @ CHR ''/'' # room"]
  have "Dir (pre @ CHR ''/'' # room @ CHR ''/'' # client) = Clean (pre @ CHR ''/'' # room @ ''/'')"
    by (simp add: Dir_def)
  moreover from Clean_layout [OF room, of pre] obtain Y where
    "Clean (pre @ CHR ''/'' # room @ ''/'') = Y @ room" "Y = [] \<or> last Y = CHR ''/''" by blast
  ultimately show "Base (Dir (pre @ CHR ''/'' # room @ CHR ''/'' # client)) = room"
    using Base_segment [OF room(1), of Y] by simp
qed

subsection \<open>Traces\<close>

lemma effects_append: "effects (xs @ ys) = effects xs @ effects ys"
  by (simp add: effects_def)

lemma effects_HandleMessage:
  "effects (map (\<lambda>message. HandleMessage (f message)) ms) =
     map (\<lambda>message. HandleMessage (f message)) ms"
  by (induction ms) (simp_all add: effects_def)

lemma effects_return_running:
  "effects (return_running w room clientID adapter ds) =
     concat (map (\<lambda>d. effects (run_deferred w room clientID adapter d)) ds)"
  by (induction ds) (simp_all add: return_running_def effects_def)

lemma effects_run_deferred:
  "effects (run_deferred w room clientID adapter d) =
     (case d of
        DeferSocketClose \<Rightarrow> [Socket_Close StatusInternalError []]
      | DeferClientClose \<Rightarrow> [Client_Close]
      | DeferRoomsExit \<Rightarrow> [Rooms_Exit room]
      | DeferCleanup ev \<Rightarrow> [Cleanup ev]
      | DeferAdapterRemove \<Rightarrow> [Adapter_Remove adapter clientID])"
  by (cases d) (simp_all add: effects_def split: option.splits)

lemma HandleRoomWithCleanup_subscribed:
  assumes "Accept_result w = None" and "Add_result w = None"
  shows "HandleRoomWithCleanup w urlPath cleanup =
     [Websocket_Accept, NewClientWithID (Base urlPath),
      Log_NewConnection (Base (Dir urlPath)) (Base urlPath),
      Rooms_Enter (Base (Dir urlPath)),
      Adapter_Add (Enter_result w (Base (Dir urlPath))) (Base urlPath), Client_Subscribe] @
     map (\<lambda>message. HandleMessage
            (RoomEvent (Base urlPath) (Base (Dir urlPath))
               (Enter_result w (Base (Dir urlPath))) message))
       (Subscribe_messages w) @
     (case Subscribe_result w of
        None \<Rightarrow> []
      | Some e \<Rightarrow>
          if \<not> errors_Is e Canceled \<and> CloseStatus (Some e) \<noteq> StatusNormalClosure \<and>
             CloseStatus (Some e) \<noteq> StatusGoingAway
          then [Log_SubscriptionError e] else []) @
     return_running w (Base (Dir urlPath)) (Base urlPath) (Enter_result w (Base (Dir urlPath)))
       (DeferAdapterRemove #
        (if cleanup
         then [DeferCleanup (CleanupEvent (Base urlPath) (Base (Dir urlPath))
                 (Enter_result w (Base (Dir urlPath))))]
         else []) @
        [DeferRoomsExit, DeferClientClose, DeferSocketClose])"
  using assms
  by (simp add: HandleRoomWithCleanup_def Let_def split: option.splits)

lemma effects_teardown:
  "effects (return_running w room clientID adapter
      (DeferAdapterRemove # (if cleanup then [DeferCleanup ev] else []) @
       [DeferRoomsExit, DeferClientClose, DeferSocketClose])) =
   [Adapter_Remove adapter clientID] @ (if cleanup then [Cleanup ev] else []) @
   [Rooms_Exit room, Client_Close, Socket_Close StatusInternalError []]"
  by (simp add: effects_return_running effects_run_deferred)

lemma effects_subscription_log:
  "effects (case r of None \<Rightarrow> [] | Some e \<Rightarrow> if P e then [Log_SubscriptionError e] else []) = []"
  by (simp add: effects_def split: option.splits)

text \<open>
  Claim C1, as the code has it.  Once the upgrade is accepted and the adapter has taken
  the client, every run of the handler, whatever the subscription delivers and however
  it ends, has these effects in this order: the client is created, the room entered,
  the client added, the subscription started and each message handed to the message
  handler; then \<open>adapter.Remove(clientID)\<close>; then, when a cleanup callback is given,
  that callback with the client, the room and the adapter; then \<open>rooms.Exit(room)\<close>;
  then the client is closed; then the socket is closed with the internal-error status.
\<close>

theorem C1_teardown_order:
  assumes "Accept_result w = None" and "Add_result w = None"
  shows "effects (HandleRoomWithCleanup w urlPath cleanup) =
     [Websocket_Accept, NewClientWithID (Base urlPath), Rooms_Enter (Base (Dir urlPath)),
      Adapter_Add (Enter_result w (Base (Dir urlPath))) (Base urlPath), Client_Subscribe] @
     map (\<lambda>message. HandleMessage
            (RoomEvent (Base urlPath) (Base (Dir urlPath))
               (Enter_result w (Base (Dir urlPath))) message))
       (Subscribe_messages w) @
     [Adapter_Remove (Enter_result w (Base (Dir urlPath))) (Base urlPath)] @
     (if cleanup
      then [Cleanup (CleanupEvent (Base urlPath) (Base (Dir urlPath))
                       (Enter_result w (Base (Dir urlPath))))]
      else []) @
     [Rooms_Exit (Base (Dir urlPath)), Client_Close, Socket_Close StatusInternalError []]"
proof -
  have head: "effects
     [Websocket_Accept, NewClientWithID (Base urlPath),
      Log_NewConnection (Base (Dir urlPath)) (Base urlPath),
      Rooms_Enter (Base (Dir urlPath)),
      Adapter_Add (Enter_result w (Base (Dir urlPath))) (Base urlPath), Client_Subscribe] =
     [Websocket_Accept, NewClientWithID (Base urlPath), Rooms_Enter (Base (Dir urlPath)),
      Adapter_Add (Enter_result w (Base (Dir urlPath))) (Base urlPath), Client_Subscribe]"
    by (simp add: effects_def)
  show ?thesis
    unfolding HandleRoomWithCleanup_subscribed [OF assms] effects_append head
      effects_HandleMessage effects_subscription_log effects_teardown
    by simp
qed

theorem C1_teardown_order_witness:
  "effects (HandleRoomWithCleanup world1 ''/ws/room/client'' True) =
     [Websocket_Accept, NewClientWithID ''client'', Rooms_Enter ''room'',
      Adapter_Add 7 ''client'', Client_Subscribe,
      HandleMessage (RoomEvent ''client'' ''room'' 7 ''hello''),
      Adapter_Remove 7 ''client'', Cleanup (CleanupEvent ''client'' ''room'' 7),
      Rooms_Exit ''room'', Client_Close, Socket_Close 1011 []]"
proof -
  have b: "Base ''/ws/room/client'' = ''client''" by code_simp
  have d: "Base (Dir ''/ws/room/client'') = ''room''" by code_simp
  have a: "Accept_result world1 = None" "Add_result world1 = None"
    by (simp_all add: world1_def)
  from C1_teardown_order [OF a, of "''/ws/room/client''" True] show ?thesis
    unfolding b d by (simp add: world1_def StatusInternalError_def)
qed

text \<open>
  The claim as it was written puts the cleanup callback before \<open>adapter.Remove\<close>.
  The handler defers the callback first and the removal after it, so the removal runs
  first: in the sample request the removal does not come after the callback.
\<close>

theorem C1_teardown_order_counterexample:
  "\<not> precedes (Cleanup (CleanupEvent ''client'' ''room'' 7)) (Adapter_Remove 7 ''client'')
       (HandleRoomWithCleanup world1 ''/ws/room/client'' True)"
  by code_simp

text \<open>
  Claim C10.  When the upgrade is accepted and \<open>adapter.Add\<close> fails, the whole run of
  the handler is: the client is created, the room entered, the addition attempted and
  its error logged, then \<open>rooms.Exit(room)\<close>, the client closed and the socket closed
  with the internal-error status.  No cleanup callback, no \<open>adapter.Remove\<close>, no
  subscription and no message handler occur.
\<close>

theorem C10_Add_fails:
  assumes "Accept_result w = None" and "Add_result w = Some err"
  shows "HandleRoomWithCleanup w urlPath cleanup =
     [Websocket_Accept, NewClientWithID (Base urlPath),
      Log_NewConnection (Base (Dir urlPath)) (Base urlPath),
      Rooms_Enter (Base (Dir urlPath)),
      Adapter_Add (Enter_result w (Base (Dir urlPath))) (Base urlPath),
      Log_AddError err,
      Log_RoomsExit (Base (Dir urlPath)) (Base urlPath), Rooms_Exit (Base (Dir urlPath)),
      Client_Close,
      Log_Closing (Base (Dir urlPath)) (Base urlPath), Socket_Close StatusInternalError []]"
  using assms
  by (simp add: HandleRoomWithCleanup_def Let_def return_running_def)

theorem C10_Add_fails_witness:
  "HandleRoomWithCleanup (world1\<lparr>Add_result := Some (ErrorString ''duplicate'')\<rparr>)
     ''/ws/room/client'' True =
     [Websocket_Accept, NewClientWithID ''client'', Log_NewConnection ''room'' ''client'',
      Rooms_Enter ''room'', Adapter_Add 7 ''client'', Log_AddError (ErrorString ''duplicate''),
      Log_RoomsExit ''room'' ''client'', Rooms_Exit ''room'', Client_Close,
      Log_Closing ''room'' ''client'', Socket_Close 1011 []]"
proof -
  have b: "Base ''/ws/room/client'' = ''client''" by code_simp
  have d: "Base (Dir ''/ws/room/client'') = ''room''" by code_simp
  have a: "Accept_result (world1\<lparr>Add_result := Some (ErrorString ''duplicate'')\<rparr>) = None"
    "Add_result (world1\<lparr>Add_result := Some (ErrorString ''duplicate'')\<rparr>) =
       Some (ErrorString ''duplicate'')"
    by (simp_all add: world1_def)
  from C10_Add_fails [OF a, of "''/ws/room/client''" True] show ?thesis
    unfolding b d by (simp add: world1_def StatusInternalError_def)
qed

text \<open>
  Claim C7.  The handler logs a subscription error \<open>e\<close> exactly when the subscription
  ended with the error \<open>e\<close> (so not with nil), \<open>e\<close> is not a cancellation, and its
  close status is neither normal closure nor going away.
\<close>

theorem C7_Subscribe_logging:
  "Log_SubscriptionError e \<in> set (HandleRoomWithCleanup w urlPath cleanup) \<longleftrightarrow>
     Accept_result w = None \<and> Add_result w = None \<and> Subscribe_result w = Some e \<and>
     \<not> errors_Is e Canceled \<and>
     CloseStatus (Some e) \<noteq> StatusNormalClosure \<and> CloseStatus (Some e) \<noteq> StatusGoingAway"
proof (cases "Accept_result w")
  case (Some err)
  then show ?thesis by (simp add: HandleRoomWithCleanup_def)
next
  case accepted: None
  show ?thesis
  proof (cases "Add_result w")
    case (Some err)
    with accepted show ?thesis
      by (simp add: HandleRoomWithCleanup_def Let_def return_running_def)
  next
    case None
    show ?thesis
      unfolding HandleRoomWithCleanup_subscribed [OF accepted None]
      using accepted None
      by (cases "Remove_result w")
         (auto simp: return_running_def split: option.splits)
  qed
qed

theorem C7_Subscribe_logging_witness:
  "Log_SubscriptionError (Wrapped ''read'' (ErrorString ''EOF''))
     \<in> set (HandleRoomWithCleanup
         (world1\<lparr>Subscribe_result := Some (Wrapped ''read'' (ErrorString ''EOF''))\<rparr>)
         ''/ws/room/client'' True) \<and>
   Log_SubscriptionError (CloseError 1001 [])
     \<notin> set (HandleRoomWithCleanup world1 ''/ws/room/client'' True) \<and>
   Log_SubscriptionError (Wrapped ''subscribe'' Canceled)
     \<notin> set (HandleRoomWithCleanup
         (world1\<lparr>Subscribe_result := Some (Wrapped ''subscribe'' Canceled)\<rparr>)
         ''/ws/room/client'' True)"
  using
    C7_Subscribe_logging [of "Wrapped ''read'' (ErrorString ''EOF'')"
      "world1\<lparr>Subscribe_result := Some (Wrapped ''read'' (ErrorString ''EOF''))\<rparr>"
      "''/ws/room/client''" True]
    C7_Subscribe_logging [of "CloseError 1001 []" world1 "''/ws/room/client''" True]
    C7_Subscribe_logging [of "Wrapped ''subscribe'' Canceled"
      "world1\<lparr>Subscribe_result := Some (Wrapped ''subscribe'' Canceled)\<rparr>"
      "''/ws/room/client''" True]
  by (simp add: world1_def CloseStatus_def StatusNormalClosure_def StatusGoingAway_def)

subsection \<open>Client and room of a request\<close>

text \<open>
  Claim C8, as the code has it.  For a URL path that ends \<open>/<room>/<clientID>\<close>,
  where the room and the client are path elements (not empty, without slash) and the
  room is neither \<open>.\<close> nor \<open>..\<close>, the handler's client is the last segment and its
  room the segment before it, whatever precedes them; the client is created and the
  room entered under these names.
\<close>

theorem C8_url_layout:
  assumes "segment room" and "room \<noteq> ''.''" and "room \<noteq> ''..''" and "segment client"
    and "Accept_result w = None"
  shows "Base (pre @ ''/'' @ room @ ''/'' @ client) = client \<and>
         Base (Dir (pre @ ''/'' @ room @ ''/'' @ client)) = room \<and>
         spec_clientID (pre @ ''/'' @ room @ ''/'' @ client) = client \<and>
         spec_room (pre @ ''/'' @ room @ ''/'' @ client) = room \<and>
         take 3 (effects (HandleRoomWithCleanup w (pre @ ''/'' @ room @ ''/'' @ client) cleanup)) =
           [Websocket_Accept, NewClientWithID client, Rooms_Enter room]"
proof -
  let ?p = "pre @ ''/'' @ room @ ''/'' @ client"
  have p: "?p = pre @ CHR ''/'' # room @ CHR ''/'' # client" by simp
  from Base_Dir_layout [OF assms(1-4), of pre]
  have b: "Base ?p = client" and d: "Base (Dir ?p) = room"
    unfolding p by simp_all
  from segments_layout [OF assms(1) assms(4), of pre]
  have s: "spec_clientID ?p = client" "spec_room ?p = room"
    unfolding p by (simp_all add: spec_clientID_def spec_room_def butlast_append)
  have "take 3 (effects (HandleRoomWithCleanup w ?p cleanup)) =
          [Websocket_Accept, NewClientWithID (Base ?p), Rooms_Enter (Base (Dir ?p))]"
    using assms(5)
    by (simp add: HandleRoomWithCleanup_def Let_def effects_def split: option.splits)
  with b d s show ?thesis by simp
qed

theorem C8_url_layout_witness:
  "Base ''/ws/room/client'' = ''client'' \<and> Base (Dir ''/ws/room/client'') = ''room'' \<and>
   take 3 (effects (HandleRoomWithCleanup world1 ''/ws/room/client'' False)) =
     [Websocket_Accept, NewClientWithID ''client'', Rooms_Enter ''room'']"
  using C8_url_layout [of "''room''" "''client''" world1 "''/ws''" False]
  by (simp add: segment_def world1_def)

text \<open>
  The claim as it was written speaks of every request URL.  With a trailing slash the
  last segment is still the client, but \<open>Dir\<close> then only drops the slash, and the
  handler's room is the client again, not the segment before it.
\<close>

theorem C8_url_layout_counterexample:
  "spec_clientID ''/ws/room/client/'' = ''client'' \<and>
   spec_room ''/ws/room/client/'' = ''room'' \<and>
   Base (Dir ''/ws/room/client/'') = ''client''"
  by code_simp

section \<open>Properties of the serializer\<close>

subsection \<open>Strings and numbers\<close>

lemma hex_digits_all: "list_all (\<lambda>n. hex_val (hex_digit n) = Some n) [0..<16]"
  by code_simp

lemma hex_val_hex_digit:
  assumes "n < 16"
  shows "hex_val (hex_digit n) = Some n"
proof -
  from assms have "n \<in> set [0..<16]" by simp
  with hex_digits_all show ?thesis
    unfolding list_all_iff by blast
qed

lemma parse_chars_enc_char:
  "parse_chars (enc_char c @ rest) = map_option (\<lambda>(s, r). (c # s, r)) (parse_chars rest)"
proof -
  consider (q) "c = quote" | (b) "c = backslash"
    | (ctl) "c \<noteq> quote" "c \<noteq> backslash" "char_code c < 0x20"
    | (plain) "c \<noteq> quote" "c \<noteq> backslash" "\<not> char_code c < 0x20"
    by blast
  then show ?thesis
  proof cases
    case q
    then show ?thesis
      by (simp add: enc_char_def unescape_def quote_def backslash_def)
  next
    case b
    then show ?thesis
      by (simp add: enc_char_def unescape_def quote_def backslash_def)
  next
    case ctl
    have d: "char_code c div 16 < 16" "char_code c mod 16 < 16"
      using ctl(3) by simp_all
    have n: "(0 * 16 + 0) * 16 * 16 + char_code c div 16 * 16 + char_code c mod 16 = char_code c"
      by simp
    have h: "hex4 CHR ''0'' CHR ''0'' (hex_digit (char_code c div 16)) (hex_digit (char_code c mod 16)) =
               Some (char_code c)"
      using hex_val_hex_digit [OF d(1)] hex_val_hex_digit [OF d(2)]
      by (simp add: hex4_def hex_val_def char_code_def)
    have u: "utf8 (char_code c) = Some [c]"
      using ctl(3) by (simp add: utf8_def char_code_def)
    from ctl h u show ?thesis
      by (simp add: enc_char_def quote_def backslash_def)
  next
    case plain
    then show ?thesis
      by (simp add: enc_char_def)
  qed
qed

lemma parse_chars_enc:
  "parse_chars (concat (map enc_char s) @ quote # rest) = Some (s, rest)"
  by (induction s) (simp_all add: parse_chars_enc_char)

lemma takeWhile_digits:
  assumes "digits ds" and "rest = [] \<or> \<not> is_digit (hd rest)"
  shows "takeWhile is_digit (ds @ rest) = ds" and "dropWhile is_digit (ds @ rest) = rest"
  using assms by (induction ds) (auto simp: digits_def takeWhile_eq_Nil_iff dropWhile_eq_self_iff neq_Nil_conv)

lemma delimited_not_digit:
  assumes "delimited rest"
  shows "rest = [] \<or> \<not> is_digit (hd rest)"
    and "rest = [] \<or> (hd rest \<noteq> CHR ''.'' \<and> hd rest \<noteq> CHR ''e'' \<and> hd rest \<noteq> CHR ''E'')"
  using assms by (auto simp: delimited_def is_digit_def char_code_def)

lemma digits_hd: "digits ds \<Longrightarrow> ds \<noteq> [] \<Longrightarrow> is_digit (hd ds)"
  by (cases ds) (simp_all add: digits_def)

lemma is_digit_not: "is_digit c \<Longrightarrow> c \<noteq> CHR ''-'' \<and> c \<noteq> CHR ''+'' \<and> c \<noteq> CHR ''.'' \<and> c \<noteq> CHR ''e'' \<and> c \<noteq> CHR ''E''"
  by (auto simp: is_digit_def char_code_def)

lemma parse_exp_enc:
  assumes "case ex of None \<Rightarrow> True | Some (neg, ds) \<Rightarrow> ds \<noteq> [] \<and> digits ds" and "delimited rest"
  shows "parse_exp ((case ex of None \<Rightarrow> [] | Some (neg, ds) \<Rightarrow> CHR ''e'' # (if neg then ''-'' else []) @ ds) @ rest) = Some (ex, rest)"
proof (cases ex)
  case None
  with delimited_not_digit(2) [OF assms(2)] show ?thesis
    by (cases rest) (simp_all add: parse_exp_def)
next
  case (Some p)
  obtain neg ds where p: "p = (neg, ds)" by (cases p)
  with assms(1) Some have ds: "ds \<noteq> []" "digits ds" by simp_all
  from digits_hd [OF ds(2) ds(1)] is_digit_not have hd: "hd ds \<noteq> CHR ''-''" "hd ds \<noteq> CHR ''+''"
    by blast+
  note tw = takeWhile_digits [OF ds(2) delimited_not_digit(1) [OF assms(2)]]
  show ?thesis
  proof (cases neg)
    case True
    with Some p ds tw show ?thesis
      by (simp add: parse_exp_def Let_def)
  next
    case False
    with Some p ds tw hd show ?thesis
      by (cases ds) (simp_all add: parse_exp_def Let_def)
  qed
qed

lemma parse_frac_enc:
  assumes "digits fs" and "rest = [] \<or> \<not> is_digit (hd rest)"
    and "rest = [] \<or> hd rest \<noteq> CHR ''.''"
  shows "parse_frac ((if fs = [] then [] else CHR ''.'' # fs) @ rest) = Some (fs, rest)"
proof (cases "fs = []")
  case True
  with assms(3) show ?thesis
    by (cases rest) (simp_all add: parse_frac_def)
next
  case False
  with takeWhile_digits [OF assms(1) assms(2)] show ?thesis
    by (simp add: parse_frac_def Let_def)
qed

lemma parse_number_enc:
  assumes "valid_number n" and "delimited rest"
  shows "parse_number (enc_number n @ rest) = Some (n, rest)"
proof -
  obtain neg ds fs ex where n: "n = Number neg ds fs ex" by (cases n)
  let ?ex = "(case ex of None \<Rightarrow> [] | Some (neg, ds) \<Rightarrow> CHR ''e'' # (if neg then ''-'' else []) @ ds)"
  let ?frac = "(if fs = [] then [] else CHR ''.'' # fs)"
  from assms(1) n have v: "ds \<noteq> []" "digits ds" "length ds = 1 \<or> hd ds \<noteq> CHR ''0''"
    "digits fs" "case ex of None \<Rightarrow> True | Some (neg, ds) \<Rightarrow> ds \<noteq> [] \<and> digits ds"
    by (simp_all add: valid_number_def)
  note d = delimited_not_digit [OF assms(2)]
  have ex: "parse_exp (?ex @ rest) = Some (ex, rest)"
    by (rule parse_exp_enc [OF v(5) assms(2)])
  have t1: "?ex @ rest = [] \<or> \<not> is_digit (hd (?ex @ rest))"
    using d(1) by (cases ex) (auto simp: is_digit_def char_code_def)
  have t2: "?ex @ rest = [] \<or> hd (?ex @ rest) \<noteq> CHR ''.''"
    using d(2) by (cases ex) auto
  have fr: "parse_frac (?frac @ ?ex @ rest) = Some (fs, ?ex @ rest)"
    by (rule parse_frac_enc [OF v(4) t1 t2])
  have t3: "?frac @ ?ex @ rest = [] \<or> \<not> is_digit (hd (?frac @ ?ex @ rest))"
    using t1 by (cases "fs = []") (auto simp: is_digit_def char_code_def)
  note tw = takeWhile_digits [OF v(2) t3]
  have body: "enc_number n @ rest = (if neg then ''-'' else []) @ ds @ ?frac @ ?ex @ rest"
    using n by (simp add: enc_number_def)
  from digits_hd [OF v(2) v(1)] is_digit_not have hd: "hd ds \<noteq> CHR ''-''" by blast
  show ?thesis
  proof (cases neg)
    case True
    with v(1,3) tw fr ex n show ?thesis
      unfolding body by (auto simp: parse_number_def Let_def)
  next
    case False
    with v(1,3) tw fr ex n hd show ?thesis
      unfolding body by (cases ds) (auto simp: parse_number_def Let_def)
  qed
qed

subsection \<open>Values\<close>

lemma skip_ws_start: "s \<noteq> [] \<Longrightarrow> \<not> is_ws (hd s) \<Longrightarrow> skip_ws (s @ rest) = s @ rest"
  by (cases s) (simp_all add: skip_ws_def)

lemma skip_ws_Cons: "\<not> is_ws c \<Longrightarrow> skip_ws (c # s) = c # s"
  by (simp add: skip_ws_def)

lemma enc_number_start:
  assumes "valid_number n"
  shows "\<exists>c cs. enc_number n = c # cs \<and> (c = CHR ''-'' \<or> is_digit c)"
proof -
  obtain neg ds fs ex where n: "n = Number neg ds fs ex" by (cases n)
  with assms have "ds \<noteq> []" "digits ds" by (simp_all add: valid_number_def)
  with digits_hd [of ds] obtain d ds' where "ds = d # ds'" "is_digit d"
    by (cases ds) auto
  with n show ?thesis by (cases neg) (simp_all add: enc_number_def)
qed

lemma is_digit_not_ws: "is_digit c \<Longrightarrow> \<not> is_ws c"
  by (auto simp: is_digit_def is_ws_def char_code_def)

lemma is_digit_not_letter:
  "is_digit c \<Longrightarrow> c \<noteq> CHR ''n'' \<and> c \<noteq> CHR ''t'' \<and> c \<noteq> CHR ''f'' \<and> c \<noteq> quote \<and>
                 c \<noteq> CHR ''['' \<and> c \<noteq> CHR ''{''"
  by (auto simp: is_digit_def char_code_def quote_def)

lemma parse_value_atom:
  assumes "delimited rest"
  shows "parse_value (Suc n) (''null'' @ rest) = Some (JNull, rest)"
    and "parse_value (Suc n) (''true'' @ rest) = Some (JBool True, rest)"
    and "parse_value (Suc n) (''false'' @ rest) = Some (JBool False, rest)"
    and "parse_value (Suc n) (enc_string s @ rest) = Some (JString s, rest)"
    and "valid_number num \<Longrightarrow> parse_value (Suc n) (enc_number num @ rest) = Some (JNumber num, rest)"
proof -
  show "parse_value (Suc n) (''null'' @ rest) = Some (JNull, rest)"
    by (simp add: skip_ws_def is_ws_def)
  show "parse_value (Suc n) (''true'' @ rest) = Some (JBool True, rest)"
    by (simp add: skip_ws_def is_ws_def)
  show "parse_value (Suc n) (''false'' @ rest) = Some (JBool False, rest)"
    by (simp add: skip_ws_def is_ws_def)
  show "parse_value (Suc n) (enc_string s @ rest) = Some (JString s, rest)"
    by (simp add: enc_string_def skip_ws_def is_ws_def quote_def parse_chars_enc [unfolded quote_def])
  assume v: "valid_number num"
  from enc_number_start [OF v] obtain c cs where
    e: "enc_number num = c # cs" "c = CHR ''-'' \<or> is_digit c" by blast
  from e(2) have nws: "\<not> is_ws c"
    using is_digit_not_ws by (auto simp: is_ws_def)
  from e(2) have nl: "c \<noteq> CHR ''n''" "c \<noteq> CHR ''t''" "c \<noteq> CHR ''f''" "c \<noteq> quote"
    "c \<noteq> CHR ''[''" "c \<noteq> CHR ''{''"
    using is_digit_not_letter by (auto simp: quote_def)
  have "parse_number (c # cs @ rest) = Some (num, rest)"
    using parse_number_enc [OF v assms] e(1) by simp
  with nws nl e show "parse_value (Suc n) (enc_number num @ rest) = Some (JNumber num, rest)"
    by (simp add: skip_ws_Cons)
qed

lemma enc_value_start:
  assumes "valid_json v"
  shows "\<exists>c cs. enc_value v = c # cs \<and> \<not> is_ws c \<and> c \<noteq> CHR '']'' \<and> c \<noteq> CHR ''}''"
proof (cases v)
  case (JNumber n)
  with assms enc_number_start [of n] obtain c cs where
    "enc_number n = c # cs" "c = CHR ''-'' \<or> is_digit c" by auto
  with JNumber show ?thesis
    by (auto simp: is_ws_def is_digit_def char_code_def)
next
  case (JBool b)
  then show ?thesis by (cases b) (simp_all add: is_ws_def)
qed (simp_all add: is_ws_def enc_string_def quote_def)
lemma delimited_Cons:
  "delimited (CHR '','' # s)" "delimited (CHR '']'' # s)" "delimited (CHR ''}'' # s)"
  by (simp_all add: delimited_def)

lemma join_Cons:
  "join (x # xs) @ rest = x @ (if xs = [] then rest else CHR '','' # join xs @ rest)"
  by (cases xs) simp_all

lemma parse_elements_enc:
  assumes IH: "\<And>v n rest. v \<in> set vs \<Longrightarrow> valid_json v \<Longrightarrow> weight v \<le> n \<Longrightarrow> delimited rest \<Longrightarrow>
                 parse_value n (enc_value v @ rest) = Some (v, rest)"
    and "vs \<noteq> []" and "list_all valid_json vs"
    and "sum_list (map (\<lambda>v. Suc (weight v)) vs) \<le> n"
  shows "parse_elements n (join (map enc_value vs) @ CHR '']'' # rest) = Some (vs, rest)"
  using assms
proof (induction vs arbitrary: n)
  case Nil
  then show ?case by simp
next
  case (Cons v vs)
  from Cons.prems(4) obtain m where n: "n = Suc m" and m: "weight v \<le> m"
    "sum_list (map (\<lambda>v. Suc (weight v)) vs) \<le> m"
    by (cases n) auto
  from Cons.prems(3) have v: "valid_json v" and vs: "list_all valid_json vs" by simp_all
  let ?tail = "if vs = [] then CHR '']'' # rest
               else CHR '','' # join (map enc_value vs) @ CHR '']'' # rest"
  have shape: "join (map enc_value (v # vs)) @ CHR '']'' # rest = enc_value v @ ?tail"
    by (simp add: join_Cons)
  have "delimited ?tail" by (simp add: delimited_Cons)
  from Cons.prems(1) [OF _ v m(1) this]
  have pv: "parse_value m (enc_value v @ ?tail) = Some (v, ?tail)" by simp
  show ?case
  proof (cases "vs = []")
    case True
    with pv show ?thesis
      unfolding shape n by (simp add: skip_ws_def is_ws_def)
  next
    case False
    have "parse_elements m (join (map enc_value vs) @ CHR '']'' # rest) = Some (vs, rest)"
      by (rule Cons.IH [OF Cons.prems(1) False vs m(2)]) simp_all
    with pv False show ?thesis
      unfolding shape n by (simp add: skip_ws_def is_ws_def)
  qed
qed

lemma parse_members_enc:
  assumes IH: "\<And>k v n rest. (k, v) \<in> set ms \<Longrightarrow> valid_json v \<Longrightarrow> weight v \<le> n \<Longrightarrow>
                 delimited rest \<Longrightarrow> parse_value n (enc_value v @ rest) = Some (v, rest)"
    and "ms \<noteq> []" and "list_all (\<lambda>(k, v). valid_json v) ms"
    and "sum_list (map (\<lambda>(k, v). Suc (weight v)) ms) \<le> n"
  shows "parse_members n
           (join (map (\<lambda>(k, v). enc_string k @ CHR '':'' # enc_value v) ms) @ CHR ''}'' # rest) =
         Some (ms, rest)"
  using assms
proof (induction ms arbitrary: n)
  case Nil
  then show ?case by simp
next
  case (Cons kv ms)
  obtain k v where kv: "kv = (k, v)" by (cases kv)
  from Cons.prems(4) kv obtain m where n: "n = Suc m" and m: "weight v \<le> m"
    "sum_list (map (\<lambda>(k, v). Suc (weight v)) ms) \<le> m"
    by (cases n) auto
  from Cons.prems(3) kv have v: "valid_json v" and ms: "list_all (\<lambda>(k, v). valid_json v) ms"
    by simp_all
  let ?tail = "if ms = [] then CHR ''}'' # rest
               else CHR '','' # join (map (\<lambda>(k, v). enc_string k @ CHR '':'' # enc_value v) ms) @
                    CHR ''}'' # rest"
  have shape: "join (map (\<lambda>(k, v). enc_string k @ CHR '':'' # enc_value v) (kv # ms)) @
                CHR ''}'' # rest =
              quote # concat (map enc_char k) @ quote # CHR '':'' # enc_value v @ ?tail"
    by (simp add: join_Cons kv enc_string_def)
  have "delimited ?tail" by (simp add: delimited_Cons)
  moreover have "(k, v) \<in> set (kv # ms)" using kv by simp
  ultimately have pv: "parse_value m (enc_value v @ ?tail) = Some (v, ?tail)"
    using Cons.prems(1) v m(1) by blast
  have q: "\<not> is_ws quote" by (simp add: is_ws_def quote_def)
  show ?case
  proof (cases "ms = []")
    case True
    with pv q show ?thesis
      unfolding shape n by (simp add: skip_ws_def is_ws_def parse_chars_enc kv)
  next
    case False
    have "parse_members m
            (join (map (\<lambda>(k, v). enc_string k @ CHR '':'' # enc_value v) ms) @ CHR ''}'' # rest) =
          Some (ms, rest)"
    proof (rule Cons.IH [OF _ False ms m(2)])
      fix k v n rest
      assume "(k, v) \<in> set ms" "valid_json v" "weight v \<le> n" "delimited rest"
      then show "parse_value n (enc_value v @ rest) = Some (v, rest)"
        using Cons.prems(1) [of k v n rest] by simp
    qed
    with pv q False show ?thesis
      unfolding shape n by (simp add: skip_ws_def is_ws_def parse_chars_enc kv)
  qed
qed

lemma parse_value_enc:
  "valid_json v \<Longrightarrow> weight v \<le> n \<Longrightarrow> delimited rest \<Longrightarrow>
   parse_value n (enc_value v @ rest) = Some (v, rest)"
proof (induction v arbitrary: n rest)
  case JNull
  then show ?case using parse_value_atom(1) by (cases n) simp_all
next
  case (JBool b)
  then show ?case using parse_value_atom(2,3) by (cases n; cases b) simp_all
next
  case (JNumber num)
  then show ?case using parse_value_atom(5) by (cases n) simp_all
next
  case (JString s)
  then show ?case using parse_value_atom(4) by (cases n) simp_all
next
  case (JArray vs)
  from JArray.prems(2) obtain m where n: "n = Suc m"
    and m: "sum_list (map (\<lambda>v. Suc (weight v)) vs) \<le> m"
    by (cases n) auto
  show ?case
  proof (cases vs)
    case Nil
    then show ?thesis unfolding n by (simp add: skip_ws_def is_ws_def quote_def)
  next
    case (Cons w ws)
    from JArray.prems(1) have vs: "list_all valid_json vs" by simp
    with Cons have "valid_json w" by simp
    from enc_value_start [OF this] obtain c cs where
      c: "enc_value w = c # cs" "\<not> is_ws c" "c \<noteq> CHR '']''" by blast
    have pe: "parse_elements m (join (map enc_value vs) @ CHR '']'' # rest) = Some (vs, rest)"
    proof (rule parse_elements_enc [OF _ _ vs m])
      show "vs \<noteq> []" using Cons by simp
    qed (rule JArray.IH)
    have start: "skip_ws (join (map enc_value vs) @ CHR '']'' # rest) =
                 c # tl (join (map enc_value vs) @ CHR '']'' # rest)"
      using Cons c by (simp add: join_Cons skip_ws_def)
    from pe start c(3) show ?thesis
      unfolding n by (simp add: skip_ws_def is_ws_def quote_def)
  qed
next
  case (JObject ms)
  from JObject.prems(2) obtain m where n: "n = Suc m"
    and m: "sum_list (map (\<lambda>(k, v). Suc (weight v)) ms) \<le> m"
    by (cases n) auto
  show ?case
  proof (cases ms)
    case Nil
    then show ?thesis unfolding n by (simp add: skip_ws_def is_ws_def quote_def)
  next
    case (Cons kv kvs)
    from JObject.prems(1) have ms: "list_all (\<lambda>(k, v). valid_json v) ms" by simp
    have pm: "parse_members m
                (join (map (\<lambda>(k, v). enc_string k @ CHR '':'' # enc_value v) ms) @
                 CHR ''}'' # rest) = Some (ms, rest)"
    proof (rule parse_members_enc [OF _ _ ms m])
      show "ms \<noteq> []" using Cons by simp
      fix k v n rest
      assume "(k, v) \<in> set ms" "valid_json v" "weight v \<le> n" "delimited rest"
      then show "parse_value n (enc_value v @ rest) = Some (v, rest)"
        using JObject.IH [of "(k, v)" v n rest] by simp
    qed
    have start: "skip_ws (join (map (\<lambda>(k, v). enc_string k @ CHR '':'' # enc_value v) ms) @
                   CHR ''}'' # rest) =
                 quote # tl (join (map (\<lambda>(k, v). enc_string k @ CHR '':'' # enc_value v) ms) @
                   CHR ''}'' # rest)"
      using Cons by (cases kv) (simp add: join_Cons skip_ws_def enc_string_def is_ws_def quote_def)
    from pm start show ?thesis
      unfolding n by (simp add: skip_ws_def is_ws_def quote_def)
  qed
qed
lemma length_join: "sum_list (map (\<lambda>x. Suc (length x)) xs) \<le> Suc (length (join xs))"
  by (induction xs rule: join.induct) simp_all

lemma sum_list_mono_map:
  "(\<And>x. x \<in> set xs \<Longrightarrow> f x \<le> g x) \<Longrightarrow> sum_list (map f xs) \<le> (sum_list (map g xs) :: nat)"
  by (induction xs) (simp_all add: add_mono)

lemma weight_le_length: "valid_json v \<Longrightarrow> weight v \<le> length (enc_value v)"
proof (induction v)
  case (JArray vs)
  have "sum_list (map (\<lambda>v. Suc (weight v)) vs) \<le>
        sum_list (map (\<lambda>v. Suc (length (enc_value v))) vs)"
  proof (rule sum_list_mono_map)
    fix v assume "v \<in> set vs"
    with JArray.prems have "valid_json v" by (simp add: list_all_iff)
    with JArray.IH \<open>v \<in> set vs\<close> show "Suc (weight v) \<le> Suc (length (enc_value v))" by simp
  qed
  also have "\<dots> = sum_list (map (\<lambda>x. Suc (length x)) (map enc_value vs))"
    by (simp add: comp_def)
  also have "\<dots> \<le> Suc (length (join (map enc_value vs)))"
    by (rule length_join)
  finally show ?case by simp
next
  case (JObject ms)
  let ?m = "\<lambda>(k, v). enc_string k @ CHR '':'' # enc_value v"
  have "sum_list (map (\<lambda>(k, v). Suc (weight v)) ms) \<le>
        sum_list (map (\<lambda>kv. Suc (length (?m kv))) ms)"
  proof (rule sum_list_mono_map)
    fix kv assume mem: "kv \<in> set ms"
    obtain k v where kv: "kv = (k, v)" by (cases kv)
    with JObject.prems mem have "valid_json v" by (auto simp: list_all_iff)
    with mem kv have "weight v \<le> length (enc_value v)"
      using JObject.IH [of "(k, v)" v] by simp
    with kv show "(case kv of (k, v) \<Rightarrow> Suc (weight v)) \<le> Suc (length (?m kv))"
      by simp
  qed
  also have "\<dots> = sum_list (map (\<lambda>x. Suc (length x)) (map ?m ms))"
    by (simp add: comp_def)
  also have "\<dots> \<le> Suc (length (join (map ?m ms)))"
    by (rule length_join)
  finally show ?case by simp
next
  case (JNumber n)
  then have "valid_number n" by simp
  from enc_number_start [OF this] show ?case by auto
qed (simp_all add: enc_string_def)

lemma parse_json_enc:
  assumes "valid_json v"
  shows "parse_json (enc_value v) = Some v"
proof -
  have "delimited []" by (simp add: delimited_def)
  from parse_value_enc [OF assms weight_le_length [OF assms] this]
  show ?thesis by (simp add: parse_json_def skip_ws_def)
qed

subsection \<open>Round trip of a message\<close>

lemma Deserialize_Serialize:
  assumes "valid_json (payload m)"
  shows "Deserialize (Serialize m) = Inr m"
proof -
  let ?v = "JObject [(''type'', JString (Type m)), (''room'', JString (Room m)),
                     (''payload'', payload m)]"
  from assms have "valid_json ?v" by simp
  from parse_json_enc [OF this] show ?thesis
    by (simp add: Serialize_def Deserialize_def)
qed

text \<open>
  Claim C2.  For every message whose payload is JSON-representable, \<open>Deserialize\<close> of
  \<open>Serialize\<close> of the message succeeds and returns the message unchanged.  That holds
  for every message built by \<open>NewMessage\<close> from such a payload, and for every
  message built by \<open>NewMessageRoomJoin\<close> or \<open>NewMessageRoomLeave\<close>, whatever the room,
  the client identifier and the metadata.
\<close>

theorem C2_roundtrip:
  "(valid_json (payload m) \<longrightarrow> Deserialize (Serialize m) = Inr m) \<and>
   (valid_json p \<longrightarrow>
      Deserialize (Serialize (NewMessage typ room p)) = Inr (NewMessage typ room p)) \<and>
   Deserialize (Serialize (NewMessageRoomJoin room clientID metadata)) =
     Inr (NewMessageRoomJoin room clientID metadata) \<and>
   Deserialize (Serialize (NewMessageRoomLeave room clientID)) =
     Inr (NewMessageRoomLeave room clientID)"
  by (simp add: Deserialize_Serialize NewMessage_def NewMessageRoomJoin_def
        NewMessageRoomLeave_def)

theorem C2_roundtrip_witness:
  "Deserialize (Serialize (NewMessage ''test-type'' ''test-room'' (JString ''test-payload''))) =
     Inr \<lparr>Type = ''test-type'', Room = ''test-room'', payload = JString ''test-payload''\<rparr> \<and>
   Deserialize (Serialize \<lparr>Type = ''signal'', Room = ''r'',
       payload = JArray [JNumber (Number True ''12'' ''5'' (Some (False, ''3''))), JNull]\<rparr>) =
     Inr \<lparr>Type = ''signal'', Room = ''r'',
       payload = JArray [JNumber (Number True ''12'' ''5'' (Some (False, ''3''))), JNull]\<rparr>"
  using C2_roundtrip [of "\<lparr>Type = ''signal'', Room = ''r'',
       payload = JArray [JNumber (Number True ''12'' ''5'' (Some (False, ''3''))), JNull]\<rparr>"
       "JString ''test-payload''" "''test-type''" "''test-room''"]
  by (simp add: NewMessage_def valid_number_def digits_def is_digit_def char_code_def)

end
